theory Spec2Isabelle
  imports Main
begin

section \<open>Message catalogs of FreeDOS edlin: a model of catgets.c\<close>

text \<open>
  The development follows \<^verbatim>\<open>src/catgets.c\<close>: the escape transformer
  \<^verbatim>\<open>transform_string\<close>, the catalog reader \<^verbatim>\<open>catread\<close>, the registry
  (\<^verbatim>\<open>install_catalog\<close>, \<^verbatim>\<open>theCatalogues\<close>) and the three public functions
  \<^verbatim>\<open>catopen\<close>, \<^verbatim>\<open>catgets\<close>, \<^verbatim>\<open>catclose\<close>.

  C strings are \<^typ>\<open>string\<close>s (lists of 8-bit characters) without the terminating
  NUL; a pointer into a string is an index into it. The C type \<^verbatim>\<open>int\<close> is modelled
  by \<^typ>\<open>int\<close>: signed overflow is undefined in C and digit runs long enough to
  overflow are outside the model. Behaviour that C leaves undefined and that the
  code can reach is a value of type \<open>fault\<close>.
\<close>

datatype fault =
    TableOverrun      \<comment> \<open>the search of the \<^verbatim>\<open>fsm\<close> array ran past its end\<close>
  | NullDeref         \<comment> \<open>a null pointer was dereferenced\<close>
  | TemplateOverrun   \<comment> \<open>the template pointer moved past the terminating NUL\<close>

subsection \<open>Character classes and string primitives of the C library\<close>

definition isdigit :: "int \<Rightarrow> bool" where
  "isdigit c \<longleftrightarrow> 48 \<le> c \<and> c \<le> 57"

definition isxdigit :: "int \<Rightarrow> bool" where
  "isxdigit c \<longleftrightarrow> (48 \<le> c \<and> c \<le> 57) \<or> (97 \<le> c \<and> c \<le> 102) \<or> (65 \<le> c \<and> c \<le> 70)"

definition tolower :: "int \<Rightarrow> int" where
  "tolower c = (if 65 \<le> c \<and> c \<le> 90 then c + 32 else c)"

text \<open>
  \<^verbatim>\<open>strchr (s, c)\<close>: the index of the first occurrence of \<open>c\<close> in \<open>s\<close>; the
  terminating NUL counts as part of the string, so looking for NUL finds the end.
  \<open>None\<close> is the null pointer.
\<close>

fun strchr_from :: "nat \<Rightarrow> string \<Rightarrow> char \<Rightarrow> nat option" where
  "strchr_from i [] c = (if c = CHR 0x00 then Some i else None)"
| "strchr_from i (x # xs) c = (if x = c then Some i else strchr_from (Suc i) xs c)"

definition strchr :: "string \<Rightarrow> char \<Rightarrow> nat option" where
  "strchr s c = strchr_from 0 s c"

subsection \<open>The escape transformer\<close>

text \<open>The anonymous enum of the source; \<^verbatim>\<open>UCHAR_MAX\<close> is 255.\<close>

definition FSM_ANY :: int where "FSM_ANY = 255 + 1"
definition FSM_DIGIT :: int where "FSM_DIGIT = 257"
definition FSM_ODIGIT :: int where "FSM_ODIGIT = 258"
definition FSM_XDIGIT :: int where "FSM_XDIGIT = 259"
definition FSM_OUTPUT :: int where "FSM_OUTPUT = 260"
definition FSM_SUPPRESS :: int where "FSM_SUPPRESS = 261"
definition FSM_BASE8 :: int where "FSM_BASE8 = 262"
definition FSM_BASE8_OUTPUT :: int where "FSM_BASE8_OUTPUT = 263"
definition FSM_BASE10 :: int where "FSM_BASE10 = 264"
definition FSM_BASE10_OUTPUT :: int where "FSM_BASE10_OUTPUT = 265"
definition FSM_BASE16 :: int where "FSM_BASE16 = 266"
definition FSM_BASE16_OUTPUT :: int where "FSM_BASE16_OUTPUT = 267"
definition FSM_RETAIN :: int where "FSM_RETAIN = 268"

lemmas FSM_defs =
  FSM_ANY_def FSM_DIGIT_def FSM_ODIGIT_def FSM_XDIGIT_def FSM_OUTPUT_def
  FSM_SUPPRESS_def FSM_BASE8_def FSM_BASE8_OUTPUT_def FSM_BASE10_def
  FSM_BASE10_OUTPUT_def FSM_BASE16_def FSM_BASE16_OUTPUT_def FSM_RETAIN_def

text \<open>
  The table \<^verbatim>\<open>fsm[]\<close>, four integers a row: state, input, action, next state.
  Character constants are written as their codes: backslash 92, \<^verbatim>\<open>'\b'\<close> 8,
  \<^verbatim>\<open>'\033'\<close> 27, \<^verbatim>\<open>'\f'\<close> 12, \<^verbatim>\<open>'\n'\<close> 10, \<^verbatim>\<open>'\r'\<close> 13, \<^verbatim>\<open>'\t'\<close> 9,
  \<^verbatim>\<open>'\v'\<close> 11.
\<close>

type_synonym fsm_row = "int \<times> int \<times> int \<times> int"

definition fsm :: "fsm_row list" where
  "fsm =
   [(0, 92, FSM_SUPPRESS, 1),
    (0, FSM_ANY, FSM_OUTPUT, 0),
    (1, of_char CHR ''b'', 8, 0),
    (1, of_char CHR ''e'', 27, 0),
    (1, of_char CHR ''f'', 12, 0),
    (1, of_char CHR ''n'', 10, 0),
    (1, of_char CHR ''r'', 13, 0),
    (1, of_char CHR ''t'', 9, 0),
    (1, of_char CHR ''v'', 11, 0),
    (1, 92, 92, 0),
    (1, of_char CHR ''d'', FSM_SUPPRESS, 2),
    (1, FSM_ODIGIT, FSM_BASE8, 3),
    (1, of_char CHR ''x'', FSM_SUPPRESS, 4),
    (1, FSM_ANY, FSM_OUTPUT, 0),
    (2, FSM_DIGIT, FSM_BASE10, 21),
    (2, FSM_ANY, FSM_RETAIN, 0),
    (3, FSM_ODIGIT, FSM_BASE8, 31),
    (3, FSM_ANY, FSM_RETAIN, 0),
    (4, FSM_XDIGIT, FSM_BASE16, 4),
    (4, FSM_ANY, FSM_RETAIN, 0),
    (21, FSM_DIGIT, FSM_BASE10, 22),
    (21, FSM_ANY, FSM_RETAIN, 0),
    (22, FSM_DIGIT, FSM_BASE10_OUTPUT, 0),
    (22, FSM_ANY, FSM_RETAIN, 0),
    (31, FSM_ODIGIT, FSM_BASE8_OUTPUT, 0),
    (31, FSM_ANY, FSM_RETAIN, 0),
    (- 1, - 1, - 1, - 1)]"

text \<open>The states that occur in the first column of the table.\<close>

definition fsm_states :: "int set" where
  "fsm_states = {0, 1, 2, 3, 4, 21, 22, 31}"

definition hexits :: string where
  "hexits = ''0123456789abcdef''"

text \<open>
  The condition of the \<^verbatim>\<open>for\<close> loop that searches the table: row \<open>(st, inp, _, _)\<close>
  serves state \<open>state\<close> and input character \<open>c\<close>.
\<close>

definition fsm_match :: "fsm_row \<Rightarrow> int \<Rightarrow> int \<Rightarrow> bool" where
  "fsm_match row state c =
     (case row of (st, inp, act, nxt) \<Rightarrow>
        st = state
        \<and> (inp = c
           \<or> inp = FSM_ANY
           \<or> (inp = FSM_DIGIT \<and> isdigit c)
           \<or> (inp = FSM_ODIGIT \<and> strchr ''01234567'' (char_of c) \<noteq> None)
           \<or> (inp = FSM_XDIGIT \<and> isxdigit c)))"

text \<open>
  The search itself: \<^verbatim>\<open>for (i = 0; !(...); i += 4);\<close>. The loop has no bound; when
  no row matches it reads past the array, which is \<open>None\<close> here.
\<close>

fun fsm_scan :: "fsm_row list \<Rightarrow> int \<Rightarrow> int \<Rightarrow> fsm_row option" where
  "fsm_scan [] state c = None"
| "fsm_scan (row # rows) state c =
     (if fsm_match row state c then Some row else fsm_scan rows state c)"

lemma fsm_scan_Some:
  "fsm_scan rows state c = Some row \<Longrightarrow> row \<in> set rows \<and> fsm_match row state c"
  by (induction rows) (auto split: if_splits)

lemma fsm_retain_rows:
  assumes "fsm_scan fsm state c = Some (st, inp, act, nxt)" and "act = FSM_RETAIN"
  shows "state \<noteq> 0 \<and> nxt = 0"
proof -
  from fsm_scan_Some [OF assms(1)]
  have "(st, inp, act, nxt) \<in> set fsm" and "st = state"
    by (auto simp: fsm_match_def)
  with assms(2) show ?thesis
    by (auto simp: fsm_def FSM_defs)
qed

text \<open>
  The main loop of \<^verbatim>\<open>transform_string\<close>. The arguments are \<^verbatim>\<open>state\<close>,
  \<^verbatim>\<open>accum\<close>, the output \<open>t\<close> built so far and the input from position \<^verbatim>\<open>ip\<close> on.
  \<^verbatim>\<open>DSappendchar (t, x, 1)\<close> appends the low eight bits of \<open>x\<close>; \<^verbatim>\<open>accum << 3\<close>
  and \<^verbatim>\<open>accum << 4\<close> are \<open>push_bit\<close>. Every action but \<^verbatim>\<open>FSM_RETAIN\<close> advances
  \<^verbatim>\<open>ip\<close>. The loop ends at the end of the input or at a NUL character.
\<close>

function transform_loop :: "int \<Rightarrow> int \<Rightarrow> string \<Rightarrow> string \<Rightarrow> fault + string" where
  "transform_loop state accum t [] = Inr t"
| "transform_loop state accum t (ch # cs) =
     (let c = (of_char ch :: int) in
      if c = 0 then Inr t
      else
        case fsm_scan fsm state c of
          None \<Rightarrow> Inl TableOverrun
        | Some (st, inp, act, nxt) \<Rightarrow>
            if act = FSM_OUTPUT then
              transform_loop nxt accum (t @ [char_of c]) cs
            else if act = FSM_SUPPRESS then
              transform_loop nxt 0 t cs
            else if act = FSM_BASE10 then
              transform_loop nxt (accum * 10 + (c - 48)) t cs
            else if act = FSM_BASE8 then
              transform_loop nxt (push_bit 3 accum + (c - 48)) t cs
            else if act = FSM_BASE16 then
              (case strchr hexits (char_of (tolower c)) of
                 None \<Rightarrow> Inl NullDeref
               | Some k \<Rightarrow> transform_loop nxt (push_bit 4 accum + int k) t cs)
            else if act = FSM_BASE10_OUTPUT then
              transform_loop nxt 0 (t @ [char_of (accum * 10 + (c - 48))]) cs
            else if act = FSM_BASE8_OUTPUT then
              transform_loop nxt 0 (t @ [char_of (push_bit 3 accum + (c - 48))]) cs
            else if act = FSM_RETAIN then
              transform_loop nxt 0 (t @ [char_of accum]) (ch # cs)
            else
              transform_loop nxt accum (t @ [char_of act]) cs)"
  by pat_completeness auto
termination
proof (relation "measure (\<lambda>(state, accum, t, s). 2 * length s + (if state = 0 then 0 else 1))",
    goal_cases)
  case (9 state accum t ch cs c row st rest inp rest' act nxt)
  then have "fsm_scan fsm state c = Some (st, inp, act, nxt)"
    by simp
  from fsm_retain_rows [OF this \<open>act = FSM_RETAIN\<close>] show ?case
    by simp
qed auto

declare transform_loop.simps [simp del]

definition transform_string :: "string \<Rightarrow> fault + string" where
  "transform_string s = transform_loop 0 0 [] s"


subsection \<open>Messages, catalogs and the global state\<close>

text \<open>
  \<^verbatim>\<open>_CAT_MESSAGE_T\<close> and \<^verbatim>\<open>_CAT_CATALOG_T\<close>; a dynamic string or array is a list.
  The field \<^verbatim>\<open>is_opened\<close> is an \<^verbatim>\<open>int\<close> that the code sets to 0 or 1 and tests
  against zero: a \<^typ>\<open>bool\<close>.
\<close>

record CAT_MESSAGE_T =
  set_id :: int
  msg_id :: int
  msg :: string

record CAT_CATALOG_T =
  is_opened :: bool
  msgs :: "CAT_MESSAGE_T list"

text \<open>
  The values of \<^verbatim>\<open>errno\<close> the code and \<^verbatim>\<open>fopen\<close> assign. The model is of a
  platform whose \<^verbatim>\<open>errno.h\<close> defines \<^verbatim>\<open>ENOMSG\<close>.
\<close>

datatype errcode = E_NONE | EBADF | ENOMSG | ENOENT

text \<open>
  The variables that outlive a call: the registry \<^verbatim>\<open>theCatalogues\<close> (\<open>None\<close> while
  the pointer is null), \<^verbatim>\<open>errno\<close>, and the two integer fields of the static
  \<^verbatim>\<open>keymsg\<close> of \<^verbatim>\<open>catgets\<close>.
\<close>

record globals =
  theCatalogues :: "CAT_CATALOG_T list option"
  errno :: errcode
  keymsg :: "int \<times> int"

definition catmsg_cmp :: "CAT_MESSAGE_T \<Rightarrow> CAT_MESSAGE_T \<Rightarrow> int" where
  "catmsg_cmp pa pb =
     (if set_id pa \<noteq> set_id pb then (if set_id pa < set_id pb then - 1 else 1)
      else if msg_id pa \<noteq> msg_id pb then (if msg_id pa < msg_id pb then - 1 else 1)
      else 0)"

text \<open>
  \<^verbatim>\<open>qsort\<close> and \<^verbatim>\<open>bsearch\<close> come from the C library. The order \<^verbatim>\<open>qsort\<close> gives
  to elements that compare equal is unspecified; the model is an insertion sort,
  one of the admissible results. \<^verbatim>\<open>bsearch\<close> is the usual halving search over
  the index range \<open>[l, u)\<close>.
\<close>

fun qsort_insert :: "('a \<Rightarrow> 'a \<Rightarrow> int) \<Rightarrow> 'a \<Rightarrow> 'a list \<Rightarrow> 'a list" where
  "qsort_insert cmp x [] = [x]"
| "qsort_insert cmp x (y # ys) =
     (if cmp x y \<le> 0 then x # y # ys else y # qsort_insert cmp x ys)"

definition qsort :: "('a \<Rightarrow> 'a \<Rightarrow> int) \<Rightarrow> 'a list \<Rightarrow> 'a list" where
  "qsort cmp xs = foldr (qsort_insert cmp) xs []"

function bsearch_loop :: "('a \<Rightarrow> 'a \<Rightarrow> int) \<Rightarrow> 'a \<Rightarrow> 'a list \<Rightarrow> nat \<Rightarrow> nat \<Rightarrow> 'a option" where
  "bsearch_loop cmp key base l u =
     (if l < u then
        (let idx = (l + u) div 2; r = cmp key (base ! idx) in
         if r < 0 then bsearch_loop cmp key base l idx
         else if 0 < r then bsearch_loop cmp key base (idx + 1) u
         else Some (base ! idx))
      else None)"
  by pat_completeness auto
termination
  by (relation "measure (\<lambda>(cmp, key, base, l, u). u - l)") auto

declare bsearch_loop.simps [simp del]

definition bsearch :: "('a \<Rightarrow> 'a \<Rightarrow> int) \<Rightarrow> 'a \<Rightarrow> 'a list \<Rightarrow> 'a option" where
  "bsearch cmp key base = bsearch_loop cmp key base 0 (length base)"

subsection \<open>Reading a catalog file\<close>

text \<open>
  A file system maps a path to the text of the file; a path outside its domain
  cannot be opened, and \<^verbatim>\<open>fopen\<close> then sets \<^verbatim>\<open>errno\<close> (to \<^verbatim>\<open>ENOENT\<close> here;
  the code never reads the value). File texts are the characters \<^verbatim>\<open>fgets\<close>
  delivers and hold no NUL.
\<close>

type_synonym filesystem = "string \<rightharpoonup> string"

text \<open>
  The \<^verbatim>\<open>fgets\<close> loop of \<^verbatim>\<open>append_from_file\<close> reads up to and including the next
  newline, or to the end of the file: \<open>fgets_line\<close> splits the unread text there.
\<close>

fun fgets_line :: "string \<Rightarrow> string \<times> string" where
  "fgets_line [] = ([], [])"
| "fgets_line (c # cs) =
     (if c = CHR 0x0A then ([c], cs)
      else (case fgets_line cs of (l, r) \<Rightarrow> (c # l, r)))"

definition append_from_file :: "string \<Rightarrow> string \<Rightarrow> string \<times> string" where
  "append_from_file f s = (case fgets_line f of (l, r) \<Rightarrow> (s @ l, r))"

text \<open>
  Modelled from the spec: \<^verbatim>\<open>dynstr.h\<close> is not part of the sources. The pair
  \<^verbatim>\<open>DSfind_first_not_of\<close>/\<^verbatim>\<open>DSremove\<close> and the pair
  \<^verbatim>\<open>DSfind_last_not_of\<close>/\<^verbatim>\<open>DSresize\<close> trim the characters of
  \<^verbatim>\<open>" \t\f\v\r"\<close> from the two ends of the line; a line of such characters only
  becomes empty.
\<close>

definition blanks :: "char set" where
  "blanks = {CHR '' '', CHR 0x09, CHR 0x0C, CHR 0x0B, CHR 0x0D}"

definition trim :: "string \<Rightarrow> string" where
  "trim s = rev (dropWhile (\<lambda>c. c \<in> blanks) (rev (dropWhile (\<lambda>c. c \<in> blanks) s)))"

text \<open>
  The two \<^verbatim>\<open>for\<close> loops that read \<^verbatim>\<open>set_id\<close> and \<^verbatim>\<open>msg_id\<close>: digits are
  accumulated in base ten, the scan stops before the first other character.
  Modelled from the spec: \<^verbatim>\<open>DSget_at\<close> past the end of the string yields no
  digit, and \<^verbatim>\<open>DSremove\<close> of more characters than there are empties the string.
\<close>

fun scan_int :: "int \<Rightarrow> string \<Rightarrow> int \<times> string" where
  "scan_int acc [] = (acc, [])"
| "scan_int acc (c # cs) =
     (if isdigit (of_char c) then scan_int (acc * 10 + (of_char c - 48)) cs
      else (acc, c # cs))"

text \<open>
  The body of \<^verbatim>\<open>if (DSlength (s) > 0 && isdigit (DSget_at (s, 0)))\<close>: one catalog
  line is split, its value transformed, and the message appended; the catalog is
  allocated at the first message.
\<close>

definition catread_entry :: "string \<Rightarrow> CAT_CATALOG_T option \<Rightarrow> fault + CAT_CATALOG_T option" where
  "catread_entry s cat =
     (case scan_int 0 s of (sid, r1) \<Rightarrow>
       (case scan_int 0 (drop 1 r1) of (mid, r2) \<Rightarrow>
         (case transform_string (drop 1 r2) of
            Inl e \<Rightarrow> Inl e
          | Inr t \<Rightarrow>
              (let catmsg = \<lparr>set_id = sid, msg_id = mid, msg = t\<rparr>;
                   cat1 = (case cat of
                             None \<Rightarrow> \<lparr>is_opened = False, msgs = []\<rparr>
                           | Some ct \<Rightarrow> ct)
               in Inr (Some (cat1\<lparr>msgs := msgs cat1 @ [catmsg]\<rparr>))))))"

lemma fgets_line_length: "fgets_line f = (l, r) \<Longrightarrow> length l + length r = length f"
  by (induction f arbitrary: l r) (auto split: if_splits prod.splits)

lemma append_from_file_length:
  "append_from_file f s = (s1, f1) \<Longrightarrow> length s1 + length f1 = length s + length f"
  by (auto simp: append_from_file_def split: prod.splits dest: fgets_line_length)

lemma trim_length: "length (trim s) \<le> length s"
proof -
  let ?d = "dropWhile (\<lambda>c. c \<in> blanks) s"
  have "length (dropWhile (\<lambda>c. c \<in> blanks) (rev ?d)) \<le> length (rev ?d)"
    by (rule length_dropWhile_le)
  moreover have "length ?d \<le> length s"
    by (rule length_dropWhile_le)
  ultimately show ?thesis
    by (simp add: trim_def)
qed

text \<open>
  The \<^verbatim>\<open>while\<close> loop of \<^verbatim>\<open>catread\<close>: \<open>f\<close> is the unread text of the file,
  \<open>s\<close> the line collected so far (not empty after a continuation), \<open>cat\<close> the
  catalog pointer.
\<close>

function catread_loop :: "string \<Rightarrow> string \<Rightarrow> CAT_CATALOG_T option \<Rightarrow> fault + CAT_CATALOG_T option" where
  "catread_loop f s cat =
     (case append_from_file f s of (s1, f1) \<Rightarrow>
      if 0 < length s1 then
        (let s2 = butlast s1;
             s3 = (if 0 < length s2 then trim s2 else s2)
         in if 0 < length s3 \<and> last s3 = CHR 0x5C then
              catread_loop f1 (butlast s3) cat
            else if 0 < length s3 \<and> isdigit (of_char (hd s3)) then
              (case catread_entry s3 cat of
                 Inl e \<Rightarrow> Inl e
               | Inr cat1 \<Rightarrow> catread_loop f1 [] cat1)
            else catread_loop f1 [] cat)
      else Inr cat)"
  by pat_completeness auto
termination
proof (relation "measure (\<lambda>(f, s, cat). length f + length s)", goal_cases)
  case 1
  show ?case by simp
next
  case (2 f s cat s1 f1 s2 s3)
  from 2(1) [symmetric] have "length s1 + length f1 = length s + length f"
    by (rule append_from_file_length)
  moreover have "length s3 \<le> length s2"
    using 2(4) trim_length [of s2] by (simp split: if_splits)
  moreover have "length s2 < length s1"
    using 2(2,3) by simp
  moreover have "length (butlast s3) < length s3"
    using 2(5) by simp
  ultimately show ?case
    by simp
next
  case (3 f s cat s1 f1 s2 s3 cat1)
  from 3(1) [symmetric] have "length s1 + length f1 = length s + length f"
    by (rule append_from_file_length)
  then show ?case
    using 3(2) by (cases s1) simp_all
next
  case (4 f s cat s1 f1 s2 s3)
  from 4(1) [symmetric] have "length s1 + length f1 = length s + length f"
    by (rule append_from_file_length)
  then show ?case
    using 4(2) by (cases s1) simp_all
qed

declare catread_loop.simps [simp del]

text \<open>
  \<^verbatim>\<open>catread\<close>. When the file cannot be opened the result is the null pointer
  (\<open>None\<close>). After the loop the code evaluates \<^verbatim>\<open>cat->msgs\<close> for \<^verbatim>\<open>qsort\<close>
  without testing \<^verbatim>\<open>cat\<close>.
\<close>

definition catread :: "filesystem \<Rightarrow> globals \<Rightarrow> string \<Rightarrow> fault + (globals \<times> CAT_CATALOG_T option)" where
  "catread fs g name =
     (case fs name of
        None \<Rightarrow> Inr (g\<lparr>errno := ENOENT\<rparr>, None)
      | Some text \<Rightarrow>
          (case catread_loop text [] None of
             Inl e \<Rightarrow> Inl e
           | Inr None \<Rightarrow> Inl NullDeref
           | Inr (Some cat) \<Rightarrow> Inr (g, Some (cat\<lparr>msgs := qsort catmsg_cmp (msgs cat)\<rparr>))))"


subsection \<open>The registry\<close>

text \<open>
  The \<^verbatim>\<open>for\<close> loop of \<^verbatim>\<open>install_catalog\<close>: from index \<open>i\<close>, skip the slots that
  are open.
\<close>

function install_scan :: "CAT_CATALOG_T list \<Rightarrow> nat \<Rightarrow> nat" where
  "install_scan cats i =
     (if i < length cats \<and> is_opened (cats ! i) then install_scan cats (Suc i) else i)"
  by pat_completeness auto
termination
  by (relation "measure (\<lambda>(cats, i). length cats - i)") auto

declare install_scan.simps [simp del]

text \<open>
  Modelled from the spec: \<^verbatim>\<open>dynarray.h\<close> is not part of the sources.
  \<^verbatim>\<open>_CATCAT_put_at\<close> assigns the element to the slot at the index and, at the
  index one past the last slot, appends it (the registry grows by a new slot
  when no closed slot exists). The element is copied by \<^verbatim>\<open>_CAT_catalog_assign\<close>:
  flag and message list.
\<close>

definition CATCAT_put_at :: "CAT_CATALOG_T list \<Rightarrow> nat \<Rightarrow> CAT_CATALOG_T \<Rightarrow> CAT_CATALOG_T list" where
  "CATCAT_put_at cats i cat = (if i < length cats then cats[i := cat] else cats @ [cat])"

text \<open>
  Modelled from the spec: \<^verbatim>\<open>nl_types.h\<close> is not part of the sources. A descriptor
  \<^verbatim>\<open>nl_catd\<close> is an integer, the failure value is \<open>-1\<close>, and \<^verbatim>\<open>NL_CAT_LOCALE\<close> is
  the flag bit 1.
\<close>

type_synonym nl_catd = int

definition NL_CAT_LOCALE :: int where
  "NL_CAT_LOCALE = 1"

definition install_catalog :: "CAT_CATALOG_T \<Rightarrow> globals \<Rightarrow> globals \<times> nl_catd" where
  "install_catalog cat g =
     (let cat1 = cat\<lparr>is_opened := True\<rparr> in
      case theCatalogues g of
        None \<Rightarrow> (g\<lparr>theCatalogues := Some [cat1]\<rparr>, 0)
      | Some cats \<Rightarrow>
          (let i = install_scan cats 0
           in (g\<lparr>theCatalogues := Some (CATCAT_put_at cats i cat1)\<rparr>, int i)))"

text \<open>
  The test shared by \<^verbatim>\<open>catgets\<close> and \<^verbatim>\<open>catclose\<close>:
  \<^verbatim>\<open>theCatalogues == 0 || length <= catd || !get_at (catd)->is_opened\<close>. The
  comparison converts \<^verbatim>\<open>catd\<close> to \<^verbatim>\<open>size_t\<close>, so a negative descriptor is
  beyond every length. The result is the slot of a valid descriptor.
\<close>

definition catd_slot :: "globals \<Rightarrow> nl_catd \<Rightarrow> (CAT_CATALOG_T list \<times> nat \<times> CAT_CATALOG_T) option" where
  "catd_slot g catd =
     (case theCatalogues g of
        None \<Rightarrow> None
      | Some cats \<Rightarrow>
          if catd < 0 \<or> int (length cats) \<le> catd then None
          else if is_opened (cats ! nat catd) then Some (cats, nat catd, cats ! nat catd)
          else None)"

definition catgets :: "globals \<Rightarrow> nl_catd \<Rightarrow> int \<Rightarrow> int \<Rightarrow> string \<Rightarrow> globals \<times> string" where
  "catgets g catd sid mid s =
     (case catd_slot g catd of
        None \<Rightarrow> (g\<lparr>errno := EBADF\<rparr>, s)
      | Some (cats, i, cat) \<Rightarrow>
          (let g1 = g\<lparr>keymsg := (sid, mid)\<rparr>;
               key = \<lparr>set_id = sid, msg_id = mid, msg = []\<rparr>
           in case bsearch catmsg_cmp key (msgs cat) of
                None \<Rightarrow> (g1\<lparr>errno := ENOMSG\<rparr>, s)
              | Some m \<Rightarrow> (g1, msg m)))"

definition catclose :: "globals \<Rightarrow> nl_catd \<Rightarrow> globals \<times> int" where
  "catclose g catd =
     (case catd_slot g catd of
        None \<Rightarrow> (g\<lparr>errno := EBADF\<rparr>, - 1)
      | Some (cats, i, cat) \<Rightarrow>
          (g\<lparr>theCatalogues := Some (cats[i := cat\<lparr>is_opened := False, msgs := []\<rparr>])\<rparr>, 0))"

subsection \<open>Opening a catalog: locale and search path\<close>

definition NLS_DEFAULT_PATH :: string where
  "NLS_DEFAULT_PATH =
     ''/usr/share/nls/%L/%N.cat;/usr/share/nls/%l.%c/%N.cat;/usr/share/nls/%l/%N.cat''"

definition NLS_DEFAULT_LANG :: string where
  "NLS_DEFAULT_LANG = ''C''"

text \<open>\<^verbatim>\<open>strpbrk\<close> and \<^verbatim>\<open>strrchr\<close>, as indices; \<open>None\<close> is the null pointer.\<close>

fun strpbrk_from :: "nat \<Rightarrow> string \<Rightarrow> string \<Rightarrow> nat option" where
  "strpbrk_from i [] s2 = None"
| "strpbrk_from i (x # xs) s2 =
     (if strchr s2 x \<noteq> None then Some i else strpbrk_from (Suc i) xs s2)"

definition strpbrk :: "string \<Rightarrow> string \<Rightarrow> nat option" where
  "strpbrk s1 s2 = strpbrk_from 0 s1 s2"

fun strrchr_from :: "nat \<Rightarrow> string \<Rightarrow> char \<Rightarrow> nat option \<Rightarrow> nat option" where
  "strrchr_from i [] c last_seen = last_seen"
| "strrchr_from i (x # xs) c last_seen =
     strrchr_from (Suc i) xs c (if x = c then Some i else last_seen)"

definition strrchr :: "string \<Rightarrow> char \<Rightarrow> nat option" where
  "strrchr s c = (if c = CHR 0x00 then strchr s c else strrchr_from 0 s c None)"

type_synonym environment = "string \<rightharpoonup> string"

text \<open>
  The choice of \<^verbatim>\<open>lang\<close> in \<^verbatim>\<open>catopen\<close>, from \<^verbatim>\<open>lang = 0\<close> to the replacement
  of a null or \<^verbatim>\<open>"POSIX"\<close> value by the default.
\<close>

definition catopen_lang :: "environment \<Rightarrow> int \<Rightarrow> string" where
  "catopen_lang env oflag =
     (let lang0 = (if and oflag NL_CAT_LOCALE \<noteq> 0 then
                     (case env ''LC_ALL'' of
                        None \<Rightarrow> env ''LC_MESSAGES''
                      | Some l \<Rightarrow> Some l)
                   else None);
          lang1 = (case lang0 of None \<Rightarrow> env ''LANG'' | Some l \<Rightarrow> Some l)
      in case lang1 of
           None \<Rightarrow> NLS_DEFAULT_LANG
         | Some l \<Rightarrow> if l = ''POSIX'' then NLS_DEFAULT_LANG else l)"

text \<open>
  The locale as the expansion uses it: \<open>loc_lang\<close> is the string \<^verbatim>\<open>lang\<close> points
  to during the expansion, \<open>loc_orig\<close> the string \<^verbatim>\<open>sep\<close> and \<^verbatim>\<open>dot\<close> point into
  (the value of \<^verbatim>\<open>lang\<close> when they were computed), \<open>loc_sep\<close> and \<open>loc_dot\<close> their
  positions there.
\<close>

record locale_parts =
  loc_lang :: string
  loc_orig :: string
  loc_sep :: "nat option"
  loc_dot :: "nat option"

definition split_locale :: "string \<Rightarrow> locale_parts" where
  "split_locale lang =
     (let sep = strchr lang CHR ''_'';
          dot0 = strrchr lang CHR ''.'';
          dot = (case (dot0, sep) of
                   (Some d, Some p) \<Rightarrow> if d < p then None else dot0
                 | _ \<Rightarrow> dot0)
      in \<lparr>loc_lang = (if dot = None then NLS_DEFAULT_LANG else lang),
          loc_orig = lang, loc_sep = sep, loc_dot = dot\<rparr>)"

text \<open>
  \<^verbatim>\<open>u >= p\<close> for a pointer \<open>p\<close> that may be null: the tests
  \<^verbatim>\<open>sep && u >= sep\<close> and \<^verbatim>\<open>dot && u >= dot\<close>.
\<close>

definition reached :: "nat option \<Rightarrow> nat \<Rightarrow> bool" where
  "reached p u = (case p of None \<Rightarrow> False | Some k \<Rightarrow> k \<le> u)"

text \<open>
  The loop of \<^verbatim>\<open>case 'l'\<close>: \<open>cs\<close> is the text at \<^verbatim>\<open>u\<close>, \<open>u\<close> its position.
  When \<^verbatim>\<open>lang\<close> has been replaced by the default, \<^verbatim>\<open>u\<close> and \<^verbatim>\<open>sep\<close> point
  into different strings; the default has one character, so the loop ends after
  it whatever the comparison gives.
\<close>

fun language_loop :: "string \<Rightarrow> nat \<Rightarrow> nat option \<Rightarrow> nat option \<Rightarrow> string" where
  "language_loop [] u sep dot = []"
| "language_loop (c # cs) u sep dot =
     c # (if reached sep (Suc u) then []
          else if reached dot (Suc u) then []
          else language_loop cs (Suc u) sep dot)"

text \<open>The loop of \<^verbatim>\<open>case 't'\<close>, started at \<^verbatim>\<open>sep + 1\<close>.\<close>

fun territory_loop :: "string \<Rightarrow> nat \<Rightarrow> nat option \<Rightarrow> string" where
  "territory_loop [] u dot = []"
| "territory_loop (c # cs) u dot =
     c # (if reached dot (Suc u) then [] else territory_loop cs (Suc u) dot)"

text \<open>The \<^verbatim>\<open>switch\<close> on the character after \<^verbatim>\<open>%\<close>: the text it appends.\<close>

definition conversion :: "locale_parts \<Rightarrow> string \<Rightarrow> char \<Rightarrow> string" where
  "conversion loc name c =
     (if c = CHR ''L'' then loc_lang loc
      else if c = CHR ''N'' then name
      else if c = CHR ''l'' then language_loop (loc_lang loc) 0 (loc_sep loc) (loc_dot loc)
      else if c = CHR ''t'' then
        (case loc_sep loc of
           None \<Rightarrow> []
         | Some p \<Rightarrow> territory_loop (drop (p + 1) (loc_orig loc)) (p + 1) (loc_dot loc))
      else if c = CHR ''c'' then
        (case loc_dot loc of
           None \<Rightarrow> []
         | Some d \<Rightarrow> drop (d + 1) (loc_orig loc))
      else [c])"

text \<open>
  The inner loop \<^verbatim>\<open>while (*s && *s != ';')\<close>: it extends \<^verbatim>\<open>tmppath\<close> and
  returns it with the rest of the template, which is empty or starts with the
  semicolon. After a \<^verbatim>\<open>%\<close> that ends the template, \<^verbatim>\<open>++s\<close> is executed twice and
  the pointer leaves the string.
\<close>

fun expand_segment :: "locale_parts \<Rightarrow> string \<Rightarrow> string \<Rightarrow> string \<Rightarrow> fault + (string \<times> string)" where
  "expand_segment loc name tmppath [] = Inr (tmppath, [])"
| "expand_segment loc name tmppath (c # s) =
     (if c = CHR '';'' then Inr (tmppath, c # s)
      else if c = CHR ''%'' then
        (case s of
           [] \<Rightarrow> Inl TemplateOverrun
         | d # s1 \<Rightarrow> expand_segment loc name (tmppath @ conversion loc name d) s1)
      else expand_segment loc name (tmppath @ [c]) s)"

lemma expand_segment_length:
  "expand_segment loc name tmppath s = Inr (p, s1) \<Longrightarrow> length s1 \<le> length s"
proof (induction loc name tmppath s rule: expand_segment.induct)
  case (1 loc name tmppath)
  then show ?case by simp
next
  case (2 loc name tmppath c s)
  then show ?case
    by (fastforce split: if_splits list.splits)
qed

text \<open>
  The \<^verbatim>\<open>do ... while (*s)\<close> loop of \<^verbatim>\<open>catopen\<close>: expand one segment, try to read
  the file of that name, install the catalog on success, otherwise step over the
  semicolon and go on while template is left.
\<close>

function catopen_loop ::
  "filesystem \<Rightarrow> locale_parts \<Rightarrow> string \<Rightarrow> globals \<Rightarrow> string \<Rightarrow> fault + (globals \<times> nl_catd)" where
  "catopen_loop fs loc name g s =
     (case expand_segment loc name [] s of
        Inl e \<Rightarrow> Inl e
      | Inr (tmppath, s1) \<Rightarrow>
          (case catread fs g tmppath of
             Inl e \<Rightarrow> Inl e
           | Inr (g1, Some cat) \<Rightarrow> Inr (install_catalog cat g1)
           | Inr (g1, None) \<Rightarrow>
               (let s2 = (if s1 \<noteq> [] then tl s1 else s1)
                in if s2 \<noteq> [] then catopen_loop fs loc name g1 s2 else Inr (g1, - 1))))"
  by pat_completeness auto
termination
proof (relation "measure (\<lambda>(fs, loc, name, g, s). length s)", goal_cases)
  case 1
  show ?case by simp
next
  case (2 fs loc name g s r tmppath s1 r1 g1 c s2)
  from 2(1,2) have "length s1 \<le> length s"
    using expand_segment_length [of loc name "[]" s tmppath s1] by simp
  moreover from 2(6,7) have "length s2 < length s1"
    by (cases s1) (simp_all split: if_splits)
  ultimately show ?case
    by simp
qed

declare catopen_loop.simps [simp del]

text \<open>
  \<^verbatim>\<open>catopen\<close>. The name is \<open>None\<close> for the null pointer. The environment gives
  \<^verbatim>\<open>getenv\<close>.
\<close>

definition catopen ::
  "environment \<Rightarrow> filesystem \<Rightarrow> globals \<Rightarrow> string option \<Rightarrow> int \<Rightarrow> fault + (globals \<times> nl_catd)" where
  "catopen env fs g name oflag =
     (case name of
        None \<Rightarrow> Inr (g, - 1)
      | Some nm \<Rightarrow>
          if nm = [] then Inr (g, - 1)
          else if strpbrk nm [CHR 0x5C, CHR ''/'', CHR '':''] \<noteq> None then
            (case catread fs g nm of
               Inl e \<Rightarrow> Inl e
             | Inr (g1, Some cat) \<Rightarrow> Inr (install_catalog cat g1)
             | Inr (g1, None) \<Rightarrow> Inr (g1, - 1))
          else
            (let nlspath = (case env ''NLSPATH'' of None \<Rightarrow> NLS_DEFAULT_PATH | Some p \<Rightarrow> p);
                 lang = catopen_lang env oflag
             in catopen_loop fs (split_locale lang) nm g nlspath))"

text \<open>
  The specification describes the search as a consumer that is given the candidate
  paths in order, tries each one with the catalog parser and stops at the first
  that parses. \<open>try_candidates\<close> follows these words; it is compared with the
  loop of the code below.
\<close>

fun try_candidates :: "filesystem \<Rightarrow> globals \<Rightarrow> string list \<Rightarrow> fault + (globals \<times> nl_catd)" where
  "try_candidates fs g [] = Inr (g, - 1)"
| "try_candidates fs g (p # ps) =
     (case catread fs g p of
        Inl e \<Rightarrow> Inl e
      | Inr (g1, Some cat) \<Rightarrow> Inr (install_catalog cat g1)
      | Inr (g1, None) \<Rightarrow> try_candidates fs g1 ps)"

section \<open>Properties of the escape transformer\<close>

subsection \<open>Characters\<close>

lemma strchr_from_member:
  "strchr_from i s c = None \<longleftrightarrow> c \<notin> set s \<and> c \<noteq> CHR 0x00"
  by (induction s arbitrary: i) auto

lemma strchr_member: "strchr s c = None \<longleftrightarrow> c \<notin> set s \<and> c \<noteq> CHR 0x00"
  by (simp add: strchr_def strchr_from_member)

lemma of_char_less_256: "(of_char c :: int) < 256"
  by (metis of_char_mod_256 pos_mod_bound zero_less_numeral)

lemma of_char_zero: "(of_char c :: int) = 0 \<longleftrightarrow> c = CHR 0x00"
  using of_char_eq_iff [of c "CHR 0x00", where ?'a = int] by simp

lemma odigit_nonzero: "d \<in> set ''01234567'' \<Longrightarrow> (of_char d :: int) \<noteq> 0"
  by auto

subsection \<open>The row the table search finds\<close>

lemma fsm_scan_state_0:
  "fsm_scan fsm 0 c = Some (if c = 92 then (0, 92, FSM_SUPPRESS, 1) else (0, FSM_ANY, FSM_OUTPUT, 0))"
  by (simp add: fsm_def fsm_match_def FSM_defs)

lemma fsm_scan_state_1_d: "fsm_scan fsm 1 100 = Some (1, 100, FSM_SUPPRESS, 2)"
  by (simp add: fsm_def fsm_match_def FSM_defs)

lemma fsm_scan_state_1_odigit:
  "ch \<in> set ''01234567'' \<Longrightarrow> fsm_scan fsm 1 (of_char ch) = Some (1, FSM_ODIGIT, FSM_BASE8, 3)"
  by (auto simp: fsm_def fsm_match_def FSM_defs strchr_member)

lemma fsm_scan_state_2:
  "c < 256 \<Longrightarrow> fsm_scan fsm 2 c = Some (if isdigit c then (2, FSM_DIGIT, FSM_BASE10, 21) else (2, FSM_ANY, FSM_RETAIN, 0))"
  by (simp add: fsm_def fsm_match_def FSM_defs isdigit_def)

lemma fsm_scan_state_21:
  "c < 256 \<Longrightarrow> fsm_scan fsm 21 c = Some (if isdigit c then (21, FSM_DIGIT, FSM_BASE10, 22) else (21, FSM_ANY, FSM_RETAIN, 0))"
  by (simp add: fsm_def fsm_match_def FSM_defs isdigit_def)

lemma fsm_scan_state_22:
  "c < 256 \<Longrightarrow> fsm_scan fsm 22 c = Some (if isdigit c then (22, FSM_DIGIT, FSM_BASE10_OUTPUT, 0) else (22, FSM_ANY, FSM_RETAIN, 0))"
  by (simp add: fsm_def fsm_match_def FSM_defs isdigit_def)

lemma fsm_scan_state_3:
  "fsm_scan fsm 3 (of_char ch) =
     Some (if ch \<in> set ''01234567'' \<or> ch = CHR 0x00 then (3, FSM_ODIGIT, FSM_BASE8, 31) else (3, FSM_ANY, FSM_RETAIN, 0))"
  using of_char_less_256 [of ch]
  by (simp add: fsm_def fsm_match_def FSM_defs strchr_member del: set_simps)

lemma fsm_scan_state_31:
  "fsm_scan fsm 31 (of_char ch) =
     Some (if ch \<in> set ''01234567'' \<or> ch = CHR 0x00 then (31, FSM_ODIGIT, FSM_BASE8_OUTPUT, 0) else (31, FSM_ANY, FSM_RETAIN, 0))"
  using of_char_less_256 [of ch]
  by (simp add: fsm_def fsm_match_def FSM_defs strchr_member del: set_simps)

subsection \<open>Single steps of the loop\<close>

lemma step_backslash: "transform_loop 0 accum t (CHR 0x5C # cs) = transform_loop 1 0 t cs"
  by (subst transform_loop.simps) (simp add: fsm_scan_state_0 FSM_defs)

lemma step_d: "transform_loop 1 accum t (CHR ''d'' # cs) = transform_loop 2 0 t cs"
  by (subst transform_loop.simps) (simp add: fsm_scan_state_1_d FSM_defs)

lemma step_decimal_first:
  "isdigit (of_char d) \<Longrightarrow>
     transform_loop 2 accum t (d # cs) = transform_loop 21 (accum * 10 + (of_char d - 48)) t cs"
  by (subst transform_loop.simps) (auto simp: fsm_scan_state_2 of_char_less_256 FSM_defs isdigit_def)

lemma step_decimal_second:
  "isdigit (of_char d) \<Longrightarrow>
     transform_loop 21 accum t (d # cs) = transform_loop 22 (accum * 10 + (of_char d - 48)) t cs"
  by (subst transform_loop.simps) (auto simp: fsm_scan_state_21 of_char_less_256 FSM_defs isdigit_def)

lemma step_decimal_third:
  "isdigit (of_char d) \<Longrightarrow>
     transform_loop 22 accum t (d # cs) = transform_loop 0 0 (t @ [char_of (accum * 10 + (of_char d - 48))]) cs"
  by (subst transform_loop.simps) (auto simp: fsm_scan_state_22 of_char_less_256 FSM_defs isdigit_def)

lemma step_decimal_retain:
  "\<not> isdigit (of_char c) \<Longrightarrow> c \<noteq> CHR 0x00 \<Longrightarrow> state \<in> {2, 21, 22} \<Longrightarrow>
     transform_loop state accum t (c # cs) = transform_loop 0 0 (t @ [char_of accum]) (c # cs)"
  by (subst transform_loop.simps)
    (auto simp: fsm_scan_state_2 fsm_scan_state_21 fsm_scan_state_22 of_char_less_256 FSM_defs of_char_zero)

lemma step_octal_first:
  assumes "d \<in> set ''01234567''"
  shows "transform_loop 1 accum t (d # cs)
           = transform_loop 3 (push_bit 3 accum + (of_char d - 48)) t cs"
  by (subst transform_loop.simps)
    (simp add: Let_def odigit_nonzero [OF assms] fsm_scan_state_1_odigit [OF assms] FSM_defs)

lemma step_octal_second:
  assumes "d \<in> set ''01234567''"
  shows "transform_loop 3 accum t (d # cs)
           = transform_loop 31 (push_bit 3 accum + (of_char d - 48)) t cs"
proof -
  have "fsm_scan fsm 3 (of_char d) = Some (3, FSM_ODIGIT, FSM_BASE8, 31)"
    using assms by (simp add: fsm_scan_state_3 del: set_simps)
  then show ?thesis
    by (subst transform_loop.simps) (simp add: Let_def odigit_nonzero [OF assms] FSM_defs)
qed

lemma step_octal_third:
  assumes "d \<in> set ''01234567''"
  shows "transform_loop 31 accum t (d # cs)
           = transform_loop 0 0 (t @ [char_of (push_bit 3 accum + (of_char d - 48))]) cs"
proof -
  have "fsm_scan fsm 31 (of_char d) = Some (31, FSM_ODIGIT, FSM_BASE8_OUTPUT, 0)"
    using assms by (simp add: fsm_scan_state_31 del: set_simps)
  then show ?thesis
    by (subst transform_loop.simps) (simp add: Let_def odigit_nonzero [OF assms] FSM_defs)
qed

lemma step_octal_retain:
  assumes "c \<notin> set ''01234567''" and "c \<noteq> CHR 0x00" and "state = 3 \<or> state = 31"
  shows "transform_loop state accum t (c # cs) = transform_loop 0 0 (t @ [char_of accum]) (c # cs)"
proof -
  have "fsm_scan fsm state (of_char c) = Some (state, FSM_ANY, FSM_RETAIN, 0)"
    using assms by (auto simp: fsm_scan_state_3 fsm_scan_state_31 simp del: set_simps)
  then show ?thesis
    using assms(2) by (subst transform_loop.simps) (simp add: Let_def of_char_zero FSM_defs)
qed

subsection \<open>The loop never leaves the table\<close>

text \<open>
  From a state of the table the search finds a row for every character, the next
  state is a state of the table again, and a hexadecimal digit is found in
  \<^verbatim>\<open>hexits\<close>: \<^verbatim>\<open>transform_string\<close> returns a string for every input.
\<close>

lemma fsm_scan_total:
  "state \<in> fsm_states \<Longrightarrow> \<exists>row. fsm_scan fsm state c = Some row"
  by (auto simp: fsm_states_def fsm_def fsm_match_def FSM_defs)

lemma fsm_next_state:
  assumes "fsm_scan fsm state c = Some (st, inp, act, nxt)" and "state \<in> fsm_states"
  shows "nxt \<in> fsm_states"
proof -
  from fsm_scan_Some [OF assms(1)]
  have "(st, inp, act, nxt) \<in> set fsm" and "st = state"
    by (auto simp: fsm_match_def)
  with assms(2) show ?thesis
    by (auto simp: fsm_def fsm_states_def)
qed

lemma hexits_all:
  "list_all (\<lambda>c. strchr hexits (char_of (tolower c)) \<noteq> None)
     [48, 49, 50, 51, 52, 53, 54, 55, 56, 57, 97, 98, 99, 100, 101, 102, 65, 66, 67, 68, 69, 70]"
  by code_simp

lemma hexits_index:
  assumes "isxdigit c"
  shows "strchr hexits (char_of (tolower c)) \<noteq> None"
proof -
  from assms
  have "c \<in> set [48, 49, 50, 51, 52, 53, 54, 55, 56, 57, 97, 98, 99, 100, 101, 102, 65, 66, 67, 68, 69, 70]"
    unfolding isxdigit_def by simp presburger
  with hexits_all show ?thesis
    unfolding list_all_iff by blast
qed

lemma fsm_base16_input:
  assumes "fsm_scan fsm state c = Some (st, inp, act, nxt)" and "act = FSM_BASE16" and "c < 256"
  shows "isxdigit c"
proof -
  from fsm_scan_Some [OF assms(1)]
  have "(st, inp, act, nxt) \<in> set fsm" and "fsm_match (st, inp, act, nxt) state c"
    by auto
  with assms(2,3) show ?thesis
    by (auto simp: fsm_def fsm_match_def FSM_defs)
qed


lemma transform_loop_total:
  "state \<in> fsm_states \<Longrightarrow> \<exists>r. transform_loop state accum t s = Inr r"
proof (induction state accum t s rule: transform_loop.induct)
  case (1 state accum t)
  show ?case by (simp add: transform_loop.simps)
next
  case (2 state accum t ch cs)
  let ?c = "of_char ch :: int"
  show ?case
  proof (cases "?c = 0")
    case True
    then show ?thesis by (subst transform_loop.simps) simp
  next
    case False
    from fsm_scan_total [OF "2.prems"] obtain st inp act nxt where
      row: "fsm_scan fsm state ?c = Some (st, inp, act, nxt)"
      by (metis prod_cases4)
    have nxt: "nxt \<in> fsm_states"
      using fsm_next_state [OF row "2.prems"] .
    have hex: "strchr hexits (char_of (tolower ?c)) \<noteq> None" if "act = FSM_BASE16"
      using hexits_index [OF fsm_base16_input [OF row that of_char_less_256]] .
    note IH = "2.IH" [OF refl False row refl refl refl]
    consider (a) "act = FSM_OUTPUT" | (b) "act \<noteq> FSM_OUTPUT" "act = FSM_SUPPRESS"
      | (c) "act \<noteq> FSM_OUTPUT" "act \<noteq> FSM_SUPPRESS" "act = FSM_BASE10"
      | (d) "act \<noteq> FSM_OUTPUT" "act \<noteq> FSM_SUPPRESS" "act \<noteq> FSM_BASE10" "act = FSM_BASE8"
      | (e) "act \<noteq> FSM_OUTPUT" "act \<noteq> FSM_SUPPRESS" "act \<noteq> FSM_BASE10" "act \<noteq> FSM_BASE8"
          "act = FSM_BASE16"
      | (f) "act \<noteq> FSM_OUTPUT" "act \<noteq> FSM_SUPPRESS" "act \<noteq> FSM_BASE10" "act \<noteq> FSM_BASE8"
          "act \<noteq> FSM_BASE16" "act = FSM_BASE10_OUTPUT"
      | (g) "act \<noteq> FSM_OUTPUT" "act \<noteq> FSM_SUPPRESS" "act \<noteq> FSM_BASE10" "act \<noteq> FSM_BASE8"
          "act \<noteq> FSM_BASE16" "act \<noteq> FSM_BASE10_OUTPUT" "act = FSM_BASE8_OUTPUT"
      | (h) "act \<noteq> FSM_OUTPUT" "act \<noteq> FSM_SUPPRESS" "act \<noteq> FSM_BASE10" "act \<noteq> FSM_BASE8"
          "act \<noteq> FSM_BASE16" "act \<noteq> FSM_BASE10_OUTPUT" "act \<noteq> FSM_BASE8_OUTPUT" "act = FSM_RETAIN"
      | (i) "act \<noteq> FSM_OUTPUT" "act \<noteq> FSM_SUPPRESS" "act \<noteq> FSM_BASE10" "act \<noteq> FSM_BASE8"
          "act \<noteq> FSM_BASE16" "act \<noteq> FSM_BASE10_OUTPUT" "act \<noteq> FSM_BASE8_OUTPUT" "act \<noteq> FSM_RETAIN"
      by blast
    then show ?thesis
    proof cases
      case a
      from IH(1) [OF a nxt] show ?thesis
        using False row a by (subst transform_loop.simps) (simp add: Let_def)
    next
      case b
      from IH(2) [OF b nxt] show ?thesis
        using False row b by (subst transform_loop.simps) (simp add: Let_def)
    next
      case c
      from IH(3) [OF c nxt] show ?thesis
        using False row c by (subst transform_loop.simps) (simp add: Let_def)
    next
      case d
      from IH(4) [OF d nxt] show ?thesis
        using False row d by (subst transform_loop.simps) (simp add: Let_def)
    next
      case e
      from hex [OF e(5)] obtain k where k: "strchr hexits (char_of (tolower ?c)) = Some k"
        by auto
      from IH(5) [OF e k nxt] show ?thesis
        using False row e k by (subst transform_loop.simps) (simp add: Let_def)
    next
      case f
      from IH(6) [OF f nxt] show ?thesis
        using False row f by (subst transform_loop.simps) (simp add: Let_def)
    next
      case g
      from IH(7) [OF g nxt] show ?thesis
        using False row g by (subst transform_loop.simps) (simp add: Let_def)
    next
      case h
      from IH(8) [OF h nxt] show ?thesis
        using False row h by (subst transform_loop.simps) (simp add: Let_def)
    next
      case i
      from IH(9) [OF i nxt] show ?thesis
        using False row i by (subst transform_loop.simps) (simp add: Let_def)
    qed
  qed
qed

lemma transform_string_total: "\<exists>r. transform_string s = Inr r"
  unfolding transform_string_def by (rule transform_loop_total) (simp add: fsm_states_def)

section \<open>Properties of the registry\<close>

subsection \<open>The scan for a free slot\<close>

lemma install_scan_bounds:
  "i \<le> length cats \<Longrightarrow> i \<le> install_scan cats i \<and> install_scan cats i \<le> length cats"
proof (induction cats i rule: install_scan.induct)
  case (1 cats i)
  show ?case
  proof (cases "i < length cats \<and> is_opened (cats ! i)")
    case True
    with 1 show ?thesis
      by (subst (1 2) install_scan.simps) auto
  next
    case False
    with 1 show ?thesis
      by (subst (1 2) install_scan.simps) auto
  qed
qed

lemma install_scan_skips_open:
  "i \<le> j \<Longrightarrow> j < install_scan cats i \<Longrightarrow> is_opened (cats ! j)"
proof (induction cats i rule: install_scan.induct)
  case (1 cats i)
  show ?case
  proof (cases "i < length cats \<and> is_opened (cats ! i)")
    case True
    with 1(3) have "j < install_scan cats (Suc i)"
      by (subst (asm) install_scan.simps) simp
    with 1 True show ?thesis
      by (cases "j = i") auto
  next
    case False
    with 1(3) have "j < i"
      by (subst (asm) install_scan.simps) simp
    with 1(2) show ?thesis by simp
  qed
qed

lemma install_scan_stops_closed:
  "install_scan cats i < length cats \<Longrightarrow> \<not> is_opened (cats ! install_scan cats i)"
proof (induction cats i rule: install_scan.induct)
  case (1 cats i)
  show ?case
  proof (cases "i < length cats \<and> is_opened (cats ! i)")
    case True
    have eq: "install_scan cats i = install_scan cats (Suc i)"
      by (subst install_scan.simps) (use True in auto)
    with 1 True show ?thesis by simp
  next
    case False
    have eq: "install_scan cats i = i"
      by (subst install_scan.simps) (use False in auto)
    with 1(2) False show ?thesis by simp
  qed
qed

lemma install_scan_first_closed:
  assumes "k < length cats" and "\<not> is_opened (cats ! k)" and "\<And>j. j < k \<Longrightarrow> is_opened (cats ! j)"
  shows "install_scan cats 0 = k"
proof -
  let ?i = "install_scan cats 0"
  have "\<not> k < ?i"
    using install_scan_skips_open [of 0 k cats] assms(2) by auto
  moreover have "\<not> ?i < k"
  proof
    assume lt: "?i < k"
    then have "?i < length cats" using assms(1) by simp
    from install_scan_stops_closed [OF this] assms(3) [OF lt] show False by simp
  qed
  ultimately show ?thesis by simp
qed

subsection \<open>What a call of catopen can do to the registry\<close>

lemma catread_registry:
  "catread fs g p = Inr (g1, r) \<Longrightarrow> theCatalogues g1 = theCatalogues g"
  by (auto simp: catread_def split: option.splits sum.splits)

lemma install_catalog_nonneg: "install_catalog cat g = (g1, d) \<Longrightarrow> 0 \<le> d"
  by (auto simp: install_catalog_def Let_def split: option.splits)

lemma catopen_loop_outcome:
  "catopen_loop fs loc name g s = Inr (g1, d) \<Longrightarrow>
     (d = - 1 \<and> theCatalogues g1 = theCatalogues g)
     \<or> (\<exists>cat g0. theCatalogues g0 = theCatalogues g \<and> install_catalog cat g0 = (g1, d))"
proof (induction fs loc name g s rule: catopen_loop.induct)
  case (1 fs loc name g s)
  from "1.prems" obtain tmppath s1 where seg: "expand_segment loc name [] s = Inr (tmppath, s1)"
    by (subst (asm) catopen_loop.simps) (auto split: sum.splits)
  from "1.prems" seg obtain g2 r where rd: "catread fs g tmppath = Inr (g2, r)"
    by (subst (asm) catopen_loop.simps) (auto split: sum.splits)
  have reg: "theCatalogues g2 = theCatalogues g"
    using rd by (rule catread_registry)
  show ?case
  proof (cases r)
    case (Some cat)
    with "1.prems" seg rd have "install_catalog cat g2 = (g1, d)"
      by (subst (asm) catopen_loop.simps) simp
    with reg show ?thesis by blast
  next
    case None
    let ?s2 = "if s1 \<noteq> [] then tl s1 else s1"
    show ?thesis
    proof (cases "?s2 \<noteq> []")
      case True
      with "1.prems" seg rd None have "catopen_loop fs loc name g2 ?s2 = Inr (g1, d)"
        by (subst (asm) catopen_loop.simps) (simp add: Let_def)
      from "1.IH" [OF seg refl rd refl None refl True this] reg
      show ?thesis by simp
    next
      case False
      with "1.prems" seg rd None have "g1 = g2 \<and> d = - 1"
        by (subst (asm) catopen_loop.simps) (simp add: Let_def)
      with reg show ?thesis by simp
    qed
  qed
qed

lemma catopen_outcome:
  "catopen env fs g name oflag = Inr (g1, d) \<Longrightarrow>
     (d = - 1 \<and> theCatalogues g1 = theCatalogues g)
     \<or> (\<exists>cat g0. theCatalogues g0 = theCatalogues g \<and> install_catalog cat g0 = (g1, d))"
proof (cases name)
  case None
  assume "catopen env fs g name oflag = Inr (g1, d)"
  with None show ?thesis by (simp add: catopen_def)
next
  case (Some nm)
  assume a: "catopen env fs g name oflag = Inr (g1, d)"
  show ?thesis
  proof (cases "nm = []")
    case True
    with a Some show ?thesis by (simp add: catopen_def)
  next
    case nonempty: False
    show ?thesis
    proof (cases "strpbrk nm [CHR 0x5C, CHR ''/'', CHR '':''] \<noteq> None")
      case True
      with a Some nonempty obtain g2 r where rd: "catread fs g nm = Inr (g2, r)"
        by (auto simp: catopen_def split: sum.splits)
      have reg: "theCatalogues g2 = theCatalogues g"
        using rd by (rule catread_registry)
      show ?thesis
      proof (cases r)
        case None
        with a Some nonempty True rd reg show ?thesis
          by (auto simp: catopen_def)
      next
        case (Some cat)
        with a \<open>name = Some nm\<close> nonempty True rd have "install_catalog cat g2 = (g1, d)"
          by (auto simp: catopen_def)
        with reg show ?thesis by blast
      qed
    next
      case False
      with a Some nonempty show ?thesis
        by (auto simp: catopen_def Let_def dest: catopen_loop_outcome)
    qed
  qed
qed

subsection \<open>Installing, looking up and closing\<close>

lemma install_catalog_eq:
  "install_catalog cat (g\<lparr>theCatalogues := Some cats\<rparr>) =
     (g\<lparr>theCatalogues := Some (CATCAT_put_at cats (install_scan cats 0) (cat\<lparr>is_opened := True\<rparr>))\<rparr>,
      int (install_scan cats 0))"
  by (simp add: install_catalog_def Let_def)

lemma install_catalog_after:
  assumes "install_catalog cat g = (g1, d)"
  shows "\<exists>cats i. theCatalogues g1 = Some cats \<and> d = int i \<and> i < length cats
           \<and> cats ! i = cat\<lparr>is_opened := True\<rparr> \<and> (\<forall>j<i. is_opened (cats ! j))"
proof (cases "theCatalogues g")
  case None
  with assms have "theCatalogues g1 = Some [cat\<lparr>is_opened := True\<rparr>]" and "d = int 0"
    by (auto simp: install_catalog_def)
  then show ?thesis by auto
next
  case (Some cats0)
  let ?i = "install_scan cats0 0"
  let ?c = "cat\<lparr>is_opened := True\<rparr>"
  from assms Some have g1: "theCatalogues g1 = Some (CATCAT_put_at cats0 ?i ?c)" and d: "d = int ?i"
    by (auto simp: install_catalog_def Let_def)
  have le: "?i \<le> length cats0"
    using install_scan_bounds [of 0 cats0] by simp
  have before: "\<And>j. j < ?i \<Longrightarrow> is_opened (cats0 ! j)"
    using install_scan_skips_open [of 0 _ cats0] by simp
  have "?i < length (CATCAT_put_at cats0 ?i ?c)"
    using le by (auto simp: CATCAT_put_at_def)
  moreover have "CATCAT_put_at cats0 ?i ?c ! ?i = ?c"
    using le by (auto simp: CATCAT_put_at_def nth_append)
  moreover have "\<forall>j<?i. is_opened (CATCAT_put_at cats0 ?i ?c ! j)"
    using le before by (auto simp: CATCAT_put_at_def nth_append)
  ultimately show ?thesis
    using g1 d by blast
qed

lemma catd_slot_cong:
  "theCatalogues g1 = theCatalogues g \<Longrightarrow> catd_slot g1 catd = catd_slot g catd"
  by (simp add: catd_slot_def)

lemma catd_slot_open:
  "theCatalogues g = Some cats \<Longrightarrow> i < length cats \<Longrightarrow> is_opened (cats ! i) \<Longrightarrow>
     catd_slot g (int i) = Some (cats, i, cats ! i)"
  by (simp add: catd_slot_def)

lemma catd_slot_Some:
  "catd_slot g catd = Some (cats, i, cat) \<Longrightarrow>
     theCatalogues g = Some cats \<and> i = nat catd \<and> cat = cats ! nat catd"
  by (auto simp: catd_slot_def split: option.splits if_splits)

lemma catgets_registry: "theCatalogues (fst (catgets g catd sid mid s)) = theCatalogues g"
  by (simp add: catgets_def Let_def split: option.splits prod.splits)

lemma reuse_after_close:
  assumes a: "install_catalog catA gA = (g1, dA)"
    and c: "catclose g1 dA = (g2, rc)"
    and r: "theCatalogues gB = theCatalogues g2"
    and b: "install_catalog catB gB = (g3, dB)"
  shows "rc = 0 \<and> dB = dA"
proof -
  from install_catalog_after [OF a] obtain cats i where
    g1: "theCatalogues g1 = Some cats" and dA: "dA = int i" and i: "i < length cats"
    and at: "cats ! i = catA\<lparr>is_opened := True\<rparr>" and before: "\<forall>j<i. is_opened (cats ! j)"
    by blast
  have slot: "catd_slot g1 dA = Some (cats, i, cats ! i)"
    unfolding dA using g1 i at by (intro catd_slot_open) simp_all
  let ?cats2 = "cats[i := (cats ! i)\<lparr>is_opened := False, msgs := []\<rparr>]"
  from c slot have rc: "rc = 0" and g2: "theCatalogues g2 = Some ?cats2"
    by (auto simp: catclose_def)
  have "install_scan ?cats2 0 = i"
  proof (rule install_scan_first_closed)
    show "i < length ?cats2" using i by simp
    show "\<not> is_opened (?cats2 ! i)" using i by simp
    show "is_opened (?cats2 ! j)" if "j < i" for j
      using that before by simp
  qed
  with b r g2 have "dB = int i"
    by (auto simp: install_catalog_def Let_def)
  with rc dA show ?thesis by simp
qed

lemma bsearch_loop_in_set:
  "bsearch_loop cmp key base l u = Some m \<Longrightarrow> u \<le> length base \<Longrightarrow> m \<in> set base"
proof (induction cmp key base l u rule: bsearch_loop.induct)
  case (1 cmp key base l u)
  let ?idx = "(l + u) div 2"
  from "1.prems"(1) have lu: "l < u"
    by (subst (asm) bsearch_loop.simps) (simp split: if_splits)
  then have idx: "?idx < u" by simp
  consider (lt) "cmp key (base ! ?idx) < 0" | (gt) "0 < cmp key (base ! ?idx)"
    | (eq) "cmp key (base ! ?idx) = 0"
    by linarith
  then show ?case
  proof cases
    case lt
    with "1.prems"(1) lu have "bsearch_loop cmp key base l ?idx = Some m"
      by (subst (asm) bsearch_loop.simps) (simp add: Let_def)
    from "1.IH"(1) [OF lu refl refl lt this] idx "1.prems"(2) show ?thesis by simp
  next
    case gt
    then have nlt: "\<not> cmp key (base ! ?idx) < 0" by simp
    from gt "1.prems"(1) lu have "bsearch_loop cmp key base (?idx + 1) u = Some m"
      by (subst (asm) bsearch_loop.simps) (simp add: Let_def)
    from "1.IH"(2) [OF lu refl refl nlt gt this] "1.prems"(2) show ?thesis by simp
  next
    case eq
    with "1.prems"(1) lu have "m = base ! ?idx"
      by (subst (asm) bsearch_loop.simps) (simp add: Let_def)
    with idx "1.prems"(2) show ?thesis by simp
  qed
qed

lemma bsearch_in_set: "bsearch cmp key base = Some m \<Longrightarrow> m \<in> set base"
  using bsearch_loop_in_set [of cmp key base 0 "length base" m] by (simp add: bsearch_def)

subsection \<open>The catalog of two messages\<close>

lemma strpbrk_from_Nil: "strpbrk [] s2 = None"
  by (simp add: strpbrk_def)

lemma hello_world_loop:
  "catread_loop ''1 1 Hello\<newline>2 3 World\<newline>'' [] None
     = Inr (Some \<lparr>is_opened = False,
                   msgs = [\<lparr>set_id = 1, msg_id = 1, msg = ''Hello''\<rparr>,
                           \<lparr>set_id = 2, msg_id = 3, msg = ''World''\<rparr>]\<rparr>)"
  by code_simp

lemma hello_world_sorted:
  "qsort catmsg_cmp [\<lparr>set_id = 1, msg_id = 1, msg = ''Hello''\<rparr>,
                     \<lparr>set_id = 2, msg_id = 3, msg = ''World''\<rparr>]
     = [\<lparr>set_id = 1, msg_id = 1, msg = ''Hello''\<rparr>, \<lparr>set_id = 2, msg_id = 3, msg = ''World''\<rparr>]"
  by code_simp

lemma hello_world_search:
  "bsearch catmsg_cmp \<lparr>set_id = 1, msg_id = 1, msg = []\<rparr>
     [\<lparr>set_id = 1, msg_id = 1, msg = ''Hello''\<rparr>, \<lparr>set_id = 2, msg_id = 3, msg = ''World''\<rparr>]
     = Some \<lparr>set_id = 1, msg_id = 1, msg = ''Hello''\<rparr>"
  "bsearch catmsg_cmp \<lparr>set_id = 2, msg_id = 3, msg = []\<rparr>
     [\<lparr>set_id = 1, msg_id = 1, msg = ''Hello''\<rparr>, \<lparr>set_id = 2, msg_id = 3, msg = ''World''\<rparr>]
     = Some \<lparr>set_id = 2, msg_id = 3, msg = ''World''\<rparr>"
  "bsearch catmsg_cmp \<lparr>set_id = 9, msg_id = 9, msg = []\<rparr>
     [\<lparr>set_id = 1, msg_id = 1, msg = ''Hello''\<rparr>, \<lparr>set_id = 2, msg_id = 3, msg = ''World''\<rparr>]
     = None"
  by code_simp+

subsection \<open>Locales without a dot\<close>

lemma strrchr_from_absent: "c \<notin> set s \<Longrightarrow> strrchr_from i s c acc = acc"
  by (induction s arbitrary: i acc) auto

lemma strrchr_absent: "c \<notin> set s \<Longrightarrow> c \<noteq> CHR 0x00 \<Longrightarrow> strrchr s c = None"
  by (simp add: strrchr_def strrchr_from_absent)

section \<open>The claims\<close>

text \<open>
  C1. End to end: a file that holds exactly the two lines \<^verbatim>\<open>1 1 Hello\<close> and
  \<^verbatim>\<open>2 3 World\<close> is opened by a name with a path separator. The open succeeds
  with a descriptor; \<^verbatim>\<open>catgets\<close> on it returns \<^verbatim>\<open>Hello\<close> for (1,1), \<^verbatim>\<open>World\<close>
  for (2,3) and the default for (9,9); \<^verbatim>\<open>catclose\<close> succeeds; and a later
  \<^verbatim>\<open>catgets\<close> on the same descriptor returns the default and sets \<^verbatim>\<open>errno\<close> to
  \<^verbatim>\<open>EBADF\<close>. This holds from every state of the registry.
\<close>

theorem catalog_end_to_end:
  assumes contents: "fs nm = Some ''1 1 Hello\<newline>2 3 World\<newline>''"
    and path: "strpbrk nm [CHR 0x5C, CHR ''/'', CHR '':''] \<noteq> None"
  shows "\<exists>g1 catd g2 g3 g4 g5 g6.
      catopen env fs g (Some nm) oflag = Inr (g1, catd) \<and> 0 \<le> catd
    \<and> catgets g1 catd 1 1 dflt = (g2, ''Hello'')
    \<and> catgets g2 catd 2 3 dflt = (g3, ''World'')
    \<and> catgets g3 catd 9 9 dflt = (g4, dflt)
    \<and> catclose g4 catd = (g5, 0)
    \<and> catgets g5 catd sid mid dflt = (g6, dflt) \<and> errno g6 = EBADF"
proof -
  let ?ms = "[\<lparr>set_id = 1, msg_id = 1, msg = ''Hello''\<rparr>, \<lparr>set_id = 2, msg_id = 3, msg = ''World''\<rparr>]"
  let ?cat = "\<lparr>is_opened = False, msgs = ?ms\<rparr>"
  let ?open = "\<lparr>is_opened = True, msgs = ?ms\<rparr>"
  have nm: "nm \<noteq> []"
    using path strpbrk_from_Nil by auto
  have rd: "catread fs g nm = Inr (g, Some ?cat)"
    by (simp add: catread_def contents hello_world_loop hello_world_sorted)
  obtain g1 catd where inst: "install_catalog ?cat g = (g1, catd)"
    by (cases "install_catalog ?cat g")
  have opn: "catopen env fs g (Some nm) oflag = Inr (g1, catd)"
    using nm path rd inst by (simp add: catopen_def)
  from install_catalog_after [OF inst] obtain cats i where
    reg: "theCatalogues g1 = Some cats" and d: "catd = int i" and i: "i < length cats"
    and at: "cats ! i = ?open"
    by auto
  have slot: "catd_slot g' catd = Some (cats, i, ?open)" if "theCatalogues g' = Some cats" for g'
    using catd_slot_open [OF that i] at d by simp
  define g2 where "g2 = g1\<lparr>keymsg := (1, 1)\<rparr>"
  define g3 where "g3 = g2\<lparr>keymsg := (2, 3)\<rparr>"
  define g4 where "g4 = g3\<lparr>keymsg := (9, 9), errno := ENOMSG\<rparr>"
  define g5 where "g5 = g4\<lparr>theCatalogues := Some (cats[i := \<lparr>is_opened = False, msgs = []\<rparr>])\<rparr>"
  define g6 where "g6 = g5\<lparr>errno := EBADF\<rparr>"
  have q1: "catgets g1 catd 1 1 dflt = (g2, ''Hello'')"
    using slot [of g1] reg by (simp add: catgets_def hello_world_search g2_def)
  have q2: "catgets g2 catd 2 3 dflt = (g3, ''World'')"
    using slot [of g2] reg by (simp add: catgets_def hello_world_search g2_def g3_def)
  have q3: "catgets g3 catd 9 9 dflt = (g4, dflt)"
    using slot [of g3] reg by (simp add: catgets_def hello_world_search g2_def g3_def g4_def)
  have cl: "catclose g4 catd = (g5, 0)"
    using slot [of g4] reg by (simp add: catclose_def g2_def g3_def g4_def g5_def)
  have closed: "catd_slot g5 catd = None"
    using i d by (simp add: catd_slot_def g5_def)
  have q4: "catgets g5 catd sid mid dflt = (g6, dflt)"
    using closed by (simp add: catgets_def g6_def)
  have "errno g6 = EBADF" by (simp add: g6_def)
  moreover have "0 \<le> catd" using d by simp
  ultimately show ?thesis
    using opn q1 q2 q3 cl q4 by blast
qed

theorem catalog_end_to_end_witness:
  "[''/t.cat'' \<mapsto> ''1 1 Hello\<newline>2 3 World\<newline>''] ''/t.cat'' = Some ''1 1 Hello\<newline>2 3 World\<newline>''
   \<and> strpbrk ''/t.cat'' [CHR 0x5C, CHR ''/'', CHR '':''] = Some 0
   \<and> (\<exists>g1 catd g2 g3 g4 g5 g6.
      catopen Map.empty [''/t.cat'' \<mapsto> ''1 1 Hello\<newline>2 3 World\<newline>'']
        \<lparr>theCatalogues = None, errno = E_NONE, keymsg = (0, 0)\<rparr> (Some ''/t.cat'') 0 = Inr (g1, catd)
    \<and> 0 \<le> catd
    \<and> catgets g1 catd 1 1 ''dflt'' = (g2, ''Hello'')
    \<and> catgets g2 catd 2 3 ''dflt'' = (g3, ''World'')
    \<and> catgets g3 catd 9 9 ''dflt'' = (g4, ''dflt'')
    \<and> catclose g4 catd = (g5, 0)
    \<and> catgets g5 catd 1 1 ''dflt'' = (g6, ''dflt'') \<and> errno g6 = EBADF)"
proof -
  let ?fs = "[''/t.cat'' \<mapsto> ''1 1 Hello\<newline>2 3 World\<newline>'']"
  have h1: "?fs ''/t.cat'' = Some ''1 1 Hello\<newline>2 3 World\<newline>''"
    by simp
  have h2: "strpbrk ''/t.cat'' [CHR 0x5C, CHR ''/'', CHR '':''] = Some 0"
    by code_simp
  then have h2': "strpbrk ''/t.cat'' [CHR 0x5C, CHR ''/'', CHR '':''] \<noteq> None"
    by simp
  from catalog_end_to_end [where fs = ?fs and nm = "''/t.cat''" and env = Map.empty
      and g = "\<lparr>theCatalogues = None, errno = E_NONE, keymsg = (0, 0)\<rparr>" and oflag = 0
      and dflt = "''dflt''" and sid = 1 and mid = 1, OF h1 h2']
    h1 h2
  show ?thesis by blast
qed

text \<open>
  C2. The claim asks that an escape still pending at the end of the input is
  emitted, so that \<^verbatim>\<open>\x41\<close> gives \<^verbatim>\<open>A\<close>. The loop of \<^verbatim>\<open>transform_string\<close> stops
  when the input is used up and emits nothing for the pending value: a
  hexadecimal escape, and a decimal escape of one or two digits, is written only
  when another character follows. The other vectors of the claim hold:
  \<^verbatim>\<open>a\nb\<close> gives the three bytes, \<^verbatim>\<open>\101\<close> gives \<^verbatim>\<open>A\<close>, and the decimal digits
  65 followed by a terminator give \<^verbatim>\<open>A\<close>.
\<close>

theorem trailing_escape_is_dropped:
  "transform_string [CHR 0x5C, CHR ''x'', CHR ''4'', CHR ''1''] = Inr []
   \<and> transform_string [CHR 0x5C, CHR ''x'', CHR ''4'', CHR ''1'', CHR ''!''] = Inr ''A!''
   \<and> transform_string [CHR 0x5C, CHR ''d'', CHR ''6'', CHR ''5''] = Inr []
   \<and> transform_string [CHR 0x5C, CHR ''d'', CHR ''6'', CHR ''5'', CHR ''!''] = Inr ''A!''
   \<and> transform_string [CHR ''a'', CHR 0x5C, CHR ''n'', CHR ''b''] = Inr [CHR ''a'', CHR 0x0A, CHR ''b'']
   \<and> transform_string [CHR 0x5C, CHR ''1'', CHR ''0'', CHR ''1''] = Inr ''A''"
  by code_simp

text \<open>
  C3, as claimed: backslash-d followed by octal digits is read in base eight.
  It is not: \<^verbatim>\<open>\d10x\<close> gives the byte 10, not the byte 8, and \<^verbatim>\<open>\d9x\<close>, whose
  digit is not octal, gives the byte 9.
\<close>

theorem backslash_d_reads_base_ten:
  "transform_string [CHR 0x5C, CHR ''d'', CHR ''1'', CHR ''0'', CHR ''x''] = Inr [CHR 0x0A, CHR ''x'']
   \<and> transform_string [CHR 0x5C, CHR ''d'', CHR ''1'', CHR ''0'', CHR ''x''] \<noteq> Inr [CHR 0x08, CHR ''x'']
   \<and> transform_string [CHR 0x5C, CHR ''d'', CHR ''9'', CHR ''x''] = Inr [CHR 0x09, CHR ''x'']"
  by code_simp

text \<open>
  C3, amended. Backslash-d starts a decimal escape: one or two decimal digits
  accumulate in base ten and the byte is emitted when a character that is not a
  digit ends the run, that character being processed again from the start state;
  a third digit is accumulated and the byte emitted at once. A leading octal
  digit directly after the backslash starts an octal escape, read in base eight
  in the same way: emitted when a character that is not an octal digit follows
  one or two digits, or at once at the third digit.
\<close>

theorem decimal_and_octal_escapes:
  "(isdigit (of_char d1) \<and> \<not> isdigit (of_char c) \<and> c \<noteq> CHR 0x00 \<longrightarrow>
      transform_loop 0 0 t (CHR 0x5C # CHR ''d'' # d1 # c # rest)
        = transform_loop 0 0 (t @ [char_of (of_char d1 - 48 :: int)]) (c # rest))
   \<and> (isdigit (of_char d1) \<and> isdigit (of_char d2) \<and> \<not> isdigit (of_char c) \<and> c \<noteq> CHR 0x00 \<longrightarrow>
      transform_loop 0 0 t (CHR 0x5C # CHR ''d'' # d1 # d2 # c # rest)
        = transform_loop 0 0 (t @ [char_of ((of_char d1 - 48) * 10 + (of_char d2 - 48) :: int)]) (c # rest))
   \<and> (isdigit (of_char d1) \<and> isdigit (of_char d2) \<and> isdigit (of_char d3) \<longrightarrow>
      transform_loop 0 0 t (CHR 0x5C # CHR ''d'' # d1 # d2 # d3 # rest)
        = transform_loop 0 0
            (t @ [char_of (((of_char d1 - 48) * 10 + (of_char d2 - 48)) * 10 + (of_char d3 - 48) :: int)]) rest)
   \<and> (o1 \<in> set ''01234567'' \<and> c \<notin> set ''01234567'' \<and> c \<noteq> CHR 0x00 \<longrightarrow>
      transform_loop 0 0 t (CHR 0x5C # o1 # c # rest)
        = transform_loop 0 0 (t @ [char_of (of_char o1 - 48 :: int)]) (c # rest))
   \<and> (o1 \<in> set ''01234567'' \<and> o2 \<in> set ''01234567'' \<and> c \<notin> set ''01234567'' \<and> c \<noteq> CHR 0x00 \<longrightarrow>
      transform_loop 0 0 t (CHR 0x5C # o1 # o2 # c # rest)
        = transform_loop 0 0 (t @ [char_of ((of_char o1 - 48) * 8 + (of_char o2 - 48) :: int)]) (c # rest))
   \<and> (o1 \<in> set ''01234567'' \<and> o2 \<in> set ''01234567'' \<and> o3 \<in> set ''01234567'' \<longrightarrow>
      transform_loop 0 0 t (CHR 0x5C # o1 # o2 # o3 # rest)
        = transform_loop 0 0
            (t @ [char_of (((of_char o1 - 48) * 8 + (of_char o2 - 48)) * 8 + (of_char o3 - 48) :: int)]) rest)"
proof (intro conjI impI; elim conjE)
  assume "isdigit (of_char d1)" "\<not> isdigit (of_char c)" "c \<noteq> CHR 0x00"
  then show "transform_loop 0 0 t (CHR 0x5C # CHR ''d'' # d1 # c # rest)
        = transform_loop 0 0 (t @ [char_of (of_char d1 - 48 :: int)]) (c # rest)"
    by (simp add: step_backslash step_d step_decimal_first step_decimal_retain)
next
  assume "isdigit (of_char d1)" "isdigit (of_char d2)" "\<not> isdigit (of_char c)" "c \<noteq> CHR 0x00"
  then show "transform_loop 0 0 t (CHR 0x5C # CHR ''d'' # d1 # d2 # c # rest)
        = transform_loop 0 0 (t @ [char_of ((of_char d1 - 48) * 10 + (of_char d2 - 48) :: int)]) (c # rest)"
    by (simp add: step_backslash step_d step_decimal_first step_decimal_second step_decimal_retain)
next
  assume "isdigit (of_char d1)" "isdigit (of_char d2)" "isdigit (of_char d3)"
  then show "transform_loop 0 0 t (CHR 0x5C # CHR ''d'' # d1 # d2 # d3 # rest)
        = transform_loop 0 0
            (t @ [char_of (((of_char d1 - 48) * 10 + (of_char d2 - 48)) * 10 + (of_char d3 - 48) :: int)]) rest"
    by (simp add: step_backslash step_d step_decimal_first step_decimal_second step_decimal_third)
next
  assume "o1 \<in> set ''01234567''" "c \<notin> set ''01234567''" "c \<noteq> CHR 0x00"
  then show "transform_loop 0 0 t (CHR 0x5C # o1 # c # rest)
        = transform_loop 0 0 (t @ [char_of (of_char o1 - 48 :: int)]) (c # rest)"
    by (simp add: step_backslash step_octal_first step_octal_retain push_bit_eq_mult del: set_simps)
next
  assume "o1 \<in> set ''01234567''" "o2 \<in> set ''01234567''" "c \<notin> set ''01234567''" "c \<noteq> CHR 0x00"
  then show "transform_loop 0 0 t (CHR 0x5C # o1 # o2 # c # rest)
        = transform_loop 0 0 (t @ [char_of ((of_char o1 - 48) * 8 + (of_char o2 - 48) :: int)]) (c # rest)"
    by (simp add: step_backslash step_octal_first step_octal_second step_octal_retain push_bit_eq_mult
        del: set_simps)
next
  assume "o1 \<in> set ''01234567''" "o2 \<in> set ''01234567''" "o3 \<in> set ''01234567''"
  then show "transform_loop 0 0 t (CHR 0x5C # o1 # o2 # o3 # rest)
        = transform_loop 0 0
            (t @ [char_of (((of_char o1 - 48) * 8 + (of_char o2 - 48)) * 8 + (of_char o3 - 48) :: int)]) rest"
    by (simp add: step_backslash step_octal_first step_octal_second step_octal_third push_bit_eq_mult
        del: set_simps)
qed

theorem decimal_and_octal_escapes_witness:
  "isdigit (of_char CHR ''6'') \<and> isdigit (of_char CHR ''5'') \<and> isdigit (of_char CHR ''0'')
   \<and> \<not> isdigit (of_char CHR ''!'') \<and> CHR ''!'' \<noteq> CHR 0x00
   \<and> CHR ''1'' \<in> set ''01234567'' \<and> CHR ''0'' \<in> set ''01234567'' \<and> CHR ''!'' \<notin> set ''01234567''
   \<and> transform_loop 0 0 [] [CHR 0x5C, CHR ''d'', CHR ''6'', CHR ''!''] = Inr [CHR 0x06, CHR ''!'']
   \<and> transform_loop 0 0 [] [CHR 0x5C, CHR ''d'', CHR ''6'', CHR ''5'', CHR ''!''] = Inr ''A!''
   \<and> transform_loop 0 0 [] [CHR 0x5C, CHR ''d'', CHR ''0'', CHR ''6'', CHR ''5'', CHR ''!''] = Inr ''A!''
   \<and> transform_loop 0 0 [] [CHR 0x5C, CHR ''1'', CHR ''!''] = Inr [CHR 0x01, CHR ''!'']
   \<and> transform_loop 0 0 [] [CHR 0x5C, CHR ''1'', CHR ''0'', CHR ''!''] = Inr [CHR 0x08, CHR ''!'']
   \<and> transform_loop 0 0 [] [CHR 0x5C, CHR ''1'', CHR ''0'', CHR ''1'', CHR ''!''] = Inr ''A!''"
proof -
  have dg: "isdigit (of_char CHR ''6'')" "isdigit (of_char CHR ''5'')" "isdigit (of_char CHR ''0'')"
    "\<not> isdigit (of_char CHR ''!'')" "CHR ''!'' \<noteq> CHR 0x00"
    by (simp_all add: isdigit_def)
  have od: "CHR ''1'' \<in> set ''01234567''" "CHR ''0'' \<in> set ''01234567''" "CHR ''!'' \<notin> set ''01234567''"
    by simp_all
  have rest: "transform_loop 0 0 [CHR 0x06] ''!'' = Inr [CHR 0x06, CHR ''!'']"
    "transform_loop 0 0 ''A'' ''!'' = Inr ''A!''"
    "transform_loop 0 0 [CHR 0x01] ''!'' = Inr [CHR 0x01, CHR ''!'']"
    "transform_loop 0 0 [CHR 0x08] ''!'' = Inr [CHR 0x08, CHR ''!'']"
    by code_simp+
  note short = decimal_and_octal_escapes [where ?d1.0 = "CHR ''6''" and ?d2.0 = "CHR ''5''"
      and ?d3.0 = "CHR ''0''" and c = "CHR ''!''" and t = "[]" and rest = "[]"
      and ?o1.0 = "CHR ''1''" and ?o2.0 = "CHR ''0''" and ?o3.0 = "CHR ''1''"]
  note long = decimal_and_octal_escapes [where ?d1.0 = "CHR ''0''" and ?d2.0 = "CHR ''6''"
      and ?d3.0 = "CHR ''5''" and c = "CHR ''!''" and t = "[]" and rest = "''!''"
      and ?o1.0 = "CHR ''1''" and ?o2.0 = "CHR ''0''" and ?o3.0 = "CHR ''1''"]
  have "transform_loop 0 0 [] [CHR 0x5C, CHR ''d'', CHR ''6'', CHR ''!''] = Inr [CHR 0x06, CHR ''!'']"
    using short dg rest by (simp add: char_of_def)
  moreover have "transform_loop 0 0 [] [CHR 0x5C, CHR ''d'', CHR ''6'', CHR ''5'', CHR ''!''] = Inr ''A!''"
    using short dg rest by (simp add: char_of_def)
  moreover have "transform_loop 0 0 [] [CHR 0x5C, CHR ''d'', CHR ''0'', CHR ''6'', CHR ''5'', CHR ''!''] = Inr ''A!''"
    using long dg rest by (simp add: char_of_def)
  moreover have "transform_loop 0 0 [] [CHR 0x5C, CHR ''1'', CHR ''!''] = Inr [CHR 0x01, CHR ''!'']"
    using short rest by (simp add: char_of_def)
  moreover have "transform_loop 0 0 [] [CHR 0x5C, CHR ''1'', CHR ''0'', CHR ''!''] = Inr [CHR 0x08, CHR ''!'']"
    using short rest by (simp add: char_of_def)
  moreover have "transform_loop 0 0 [] [CHR 0x5C, CHR ''1'', CHR ''0'', CHR ''1'', CHR ''!''] = Inr ''A!''"
    using long rest by (simp add: char_of_def)
  ultimately show ?thesis
    using dg od by simp
qed

text \<open>
  C4. The locale of a search: with the flag \<^verbatim>\<open>NL_CAT_LOCALE\<close> set it is the value
  of \<^verbatim>\<open>LC_ALL\<close>, else of \<^verbatim>\<open>LC_MESSAGES\<close>, else of \<^verbatim>\<open>LANG\<close>; without the flag
  it is the value of \<^verbatim>\<open>LANG\<close> whatever the other two are; an unset locale and
  the locale \<^verbatim>\<open>POSIX\<close> become \<^verbatim>\<open>C\<close>. A name without a path separator is
  searched with this locale.
\<close>

theorem catopen_lang_priority:
  "(and oflag NL_CAT_LOCALE \<noteq> 0 \<and> env ''LC_ALL'' = Some l \<longrightarrow>
      catopen_lang env oflag = (if l = ''POSIX'' then ''C'' else l))
   \<and> (and oflag NL_CAT_LOCALE \<noteq> 0 \<and> env ''LC_ALL'' = None \<and> env ''LC_MESSAGES'' = Some l \<longrightarrow>
      catopen_lang env oflag = (if l = ''POSIX'' then ''C'' else l))
   \<and> (and oflag NL_CAT_LOCALE \<noteq> 0 \<and> env ''LC_ALL'' = None \<and> env ''LC_MESSAGES'' = None
        \<and> env ''LANG'' = Some l \<longrightarrow>
      catopen_lang env oflag = (if l = ''POSIX'' then ''C'' else l))
   \<and> (and oflag NL_CAT_LOCALE \<noteq> 0 \<and> env ''LC_ALL'' = None \<and> env ''LC_MESSAGES'' = None
        \<and> env ''LANG'' = None \<longrightarrow>
      catopen_lang env oflag = ''C'')
   \<and> (and oflag NL_CAT_LOCALE = 0 \<and> env ''LANG'' = Some l \<longrightarrow>
      catopen_lang env oflag = (if l = ''POSIX'' then ''C'' else l))
   \<and> (and oflag NL_CAT_LOCALE = 0 \<and> env ''LANG'' = None \<longrightarrow> catopen_lang env oflag = ''C'')
   \<and> (nm \<noteq> [] \<and> strpbrk nm [CHR 0x5C, CHR ''/'', CHR '':''] = None \<longrightarrow>
      catopen env fs g (Some nm) oflag
        = catopen_loop fs (split_locale (catopen_lang env oflag)) nm g
            (case env ''NLSPATH'' of None \<Rightarrow> NLS_DEFAULT_PATH | Some p \<Rightarrow> p))"
  by (simp add: catopen_lang_def catopen_def NLS_DEFAULT_LANG_def Let_def)

theorem catopen_lang_priority_witness:
  "and (1::int) NL_CAT_LOCALE \<noteq> 0 \<and> and (0::int) NL_CAT_LOCALE = 0
   \<and> catopen_lang [''LC_ALL'' \<mapsto> ''de_DE.UTF-8'', ''LC_MESSAGES'' \<mapsto> ''fr'', ''LANG'' \<mapsto> ''it''] 1 = ''de_DE.UTF-8''
   \<and> catopen_lang [''LC_MESSAGES'' \<mapsto> ''fr'', ''LANG'' \<mapsto> ''it''] 1 = ''fr''
   \<and> catopen_lang [''LANG'' \<mapsto> ''it''] 1 = ''it''
   \<and> catopen_lang Map.empty 1 = ''C''
   \<and> catopen_lang [''LC_ALL'' \<mapsto> ''de_DE.UTF-8'', ''LC_MESSAGES'' \<mapsto> ''fr'', ''LANG'' \<mapsto> ''POSIX''] 0 = ''C''
   \<and> catopen_lang [''LC_ALL'' \<mapsto> ''de_DE.UTF-8'', ''LC_MESSAGES'' \<mapsto> ''fr''] 0 = ''C''"
proof -
  have f1: "and (1::int) NL_CAT_LOCALE \<noteq> 0" and f0: "and (0::int) NL_CAT_LOCALE = 0"
    by (simp_all add: NL_CAT_LOCALE_def)
  have "catopen_lang [''LC_ALL'' \<mapsto> ''de_DE.UTF-8'', ''LC_MESSAGES'' \<mapsto> ''fr'', ''LANG'' \<mapsto> ''it''] 1 = ''de_DE.UTF-8''"
    using f1 catopen_lang_priority [where oflag = 1 and l = "''de_DE.UTF-8''"
        and env = "[''LC_ALL'' \<mapsto> ''de_DE.UTF-8'', ''LC_MESSAGES'' \<mapsto> ''fr'', ''LANG'' \<mapsto> ''it'']"]
    by simp
  moreover have "catopen_lang [''LC_MESSAGES'' \<mapsto> ''fr'', ''LANG'' \<mapsto> ''it''] 1 = ''fr''"
    using f1 catopen_lang_priority [where oflag = 1 and l = "''fr''"
        and env = "[''LC_MESSAGES'' \<mapsto> ''fr'', ''LANG'' \<mapsto> ''it'']"]
    by simp
  moreover have "catopen_lang [''LANG'' \<mapsto> ''it''] 1 = ''it''"
    using f1 catopen_lang_priority [where oflag = 1 and l = "''it''" and env = "[''LANG'' \<mapsto> ''it'']"]
    by simp
  moreover have "catopen_lang Map.empty 1 = ''C''"
    using f1 catopen_lang_priority [where oflag = 1 and env = Map.empty]
    by simp
  moreover have "catopen_lang [''LC_ALL'' \<mapsto> ''de_DE.UTF-8'', ''LC_MESSAGES'' \<mapsto> ''fr'', ''LANG'' \<mapsto> ''POSIX''] 0 = ''C''"
    using f0 catopen_lang_priority [where oflag = 0 and l = "''POSIX''"
        and env = "[''LC_ALL'' \<mapsto> ''de_DE.UTF-8'', ''LC_MESSAGES'' \<mapsto> ''fr'', ''LANG'' \<mapsto> ''POSIX'']"]
    by simp
  moreover have "catopen_lang [''LC_ALL'' \<mapsto> ''de_DE.UTF-8'', ''LC_MESSAGES'' \<mapsto> ''fr''] 0 = ''C''"
    using f0 catopen_lang_priority [where oflag = 0
        and env = "[''LC_ALL'' \<mapsto> ''de_DE.UTF-8'', ''LC_MESSAGES'' \<mapsto> ''fr'']"]
    by simp
  ultimately show ?thesis
    using f1 f0 by simp
qed

text \<open>
  C5, as claimed: \<^verbatim>\<open>%L\<close> expands to the full locale whenever the locale is not
  empty and not \<^verbatim>\<open>POSIX\<close>. It does not: for the locale \<^verbatim>\<open>fr_FR\<close> the template
  \<^verbatim>\<open>/x/%L/%N.cat\<close> expands to \<^verbatim>\<open>/x/C/prog.cat\<close>; a catalog stored under
  \<^verbatim>\<open>/x/fr_FR\<close> is not found and one stored under \<^verbatim>\<open>/x/C\<close> is.
\<close>

theorem locale_without_codeset_counterexample:
  "catopen_lang [''LANG'' \<mapsto> ''fr_FR''] 0 = ''fr_FR''
   \<and> expand_segment (split_locale ''fr_FR'') ''prog'' [] ''/x/%L/%N.cat'' = Inr (''/x/C/prog.cat'', [])
   \<and> catopen [''NLSPATH'' \<mapsto> ''/x/%L/%N.cat'', ''LANG'' \<mapsto> ''fr_FR'']
        [''/x/fr_FR/prog.cat'' \<mapsto> ''1 1 Hello\<newline>'']
        \<lparr>theCatalogues = None, errno = E_NONE, keymsg = (0, 0)\<rparr> (Some ''prog'') 0
      = Inr (\<lparr>theCatalogues = None, errno = ENOENT, keymsg = (0, 0)\<rparr>, - 1)
   \<and> catopen [''NLSPATH'' \<mapsto> ''/x/%L/%N.cat'', ''LANG'' \<mapsto> ''fr_FR'']
        [''/x/C/prog.cat'' \<mapsto> ''1 1 Hello\<newline>'']
        \<lparr>theCatalogues = None, errno = E_NONE, keymsg = (0, 0)\<rparr> (Some ''prog'') 0
      = Inr (\<lparr>theCatalogues = Some [\<lparr>is_opened = True,
                                        msgs = [\<lparr>set_id = 1, msg_id = 1, msg = ''Hello''\<rparr>]\<rparr>],
               errno = E_NONE, keymsg = (0, 0)\<rparr>, 0)"
  by code_simp

text \<open>
  C5, amended. \<^verbatim>\<open>%L\<close> expands to the full locale when the locale has a codeset
  part, that is, when its last dot does not stand before its first underscore.
  For a locale without a codeset part (no dot, or the last dot before the first
  underscore) the code replaces \<^verbatim>\<open>lang\<close> itself by the default, so that the
  fall-back applies to \<^verbatim>\<open>%L\<close> as it does to \<^verbatim>\<open>%l\<close>: both expand to \<^verbatim>\<open>C\<close>.
\<close>

theorem full_locale_needs_codeset:
  "(CHR ''.'' \<notin> set l \<longrightarrow>
      conversion (split_locale l) name CHR ''L'' = ''C''
      \<and> conversion (split_locale l) name CHR ''l'' = ''C'')
   \<and> (strrchr l CHR ''.'' = Some d \<and> strchr l CHR ''_'' = Some p \<and> d < p \<longrightarrow>
      conversion (split_locale l) name CHR ''L'' = ''C''
      \<and> conversion (split_locale l) name CHR ''l'' = ''C'')
   \<and> (strrchr l CHR ''.'' = Some d \<and> strchr l CHR ''_'' = None \<longrightarrow>
      conversion (split_locale l) name CHR ''L'' = l)
   \<and> (strrchr l CHR ''.'' = Some d \<and> strchr l CHR ''_'' = Some p \<and> p \<le> d \<longrightarrow>
      conversion (split_locale l) name CHR ''L'' = l)
   \<and> expand_segment loc name tmppath (CHR ''%'' # CHR ''L'' # rest)
       = expand_segment loc name (tmppath @ conversion loc name CHR ''L'') rest"
proof (intro conjI impI)
  assume "CHR ''.'' \<notin> set l"
  then have "strrchr l CHR ''.'' = None"
    by (simp add: strrchr_absent)
  then have loc: "loc_lang (split_locale l) = ''C''" "loc_dot (split_locale l) = None"
    by (simp_all add: split_locale_def NLS_DEFAULT_LANG_def Let_def)
  show "conversion (split_locale l) name CHR ''L'' = ''C''"
    by (simp add: conversion_def loc)
  show "conversion (split_locale l) name CHR ''l'' = ''C''"
    by (simp add: conversion_def loc)
next
  assume a: "strrchr l CHR ''.'' = Some d \<and> strchr l CHR ''_'' = Some p \<and> d < p"
  then have loc: "loc_lang (split_locale l) = ''C''" "loc_dot (split_locale l) = None"
    by (simp_all add: split_locale_def NLS_DEFAULT_LANG_def Let_def)
  show "conversion (split_locale l) name CHR ''L'' = ''C''"
    by (simp add: conversion_def loc)
  show "conversion (split_locale l) name CHR ''l'' = ''C''"
    by (simp add: conversion_def loc)
next
  assume "strrchr l CHR ''.'' = Some d \<and> strchr l CHR ''_'' = None"
  then show "conversion (split_locale l) name CHR ''L'' = l"
    by (simp add: conversion_def split_locale_def Let_def)
next
  assume "strrchr l CHR ''.'' = Some d \<and> strchr l CHR ''_'' = Some p \<and> p \<le> d"
  then show "conversion (split_locale l) name CHR ''L'' = l"
    by (simp add: conversion_def split_locale_def Let_def)
next
  show "expand_segment loc name tmppath (CHR ''%'' # CHR ''L'' # rest)
       = expand_segment loc name (tmppath @ conversion loc name CHR ''L'') rest"
    by simp
qed

theorem full_locale_needs_codeset_witness:
  "CHR ''.'' \<notin> set ''fr_FR''
   \<and> conversion (split_locale ''fr_FR'') ''prog'' CHR ''L'' = ''C''
   \<and> conversion (split_locale ''fr_FR'') ''prog'' CHR ''l'' = ''C''
   \<and> strrchr ''fr.UTF_8'' CHR ''.'' = Some 2 \<and> strchr ''fr.UTF_8'' CHR ''_'' = Some 6
   \<and> conversion (split_locale ''fr.UTF_8'') ''prog'' CHR ''L'' = ''C''
   \<and> strrchr ''fr.UTF-8'' CHR ''.'' = Some 2 \<and> strchr ''fr.UTF-8'' CHR ''_'' = None
   \<and> conversion (split_locale ''fr.UTF-8'') ''prog'' CHR ''L'' = ''fr.UTF-8''
   \<and> strrchr ''fr_FR.UTF-8'' CHR ''.'' = Some 5 \<and> strchr ''fr_FR.UTF-8'' CHR ''_'' = Some 2
   \<and> conversion (split_locale ''fr_FR.UTF-8'') ''prog'' CHR ''L'' = ''fr_FR.UTF-8''"
proof -
  have h1: "CHR ''.'' \<notin> set ''fr_FR''"
    by simp
  have h2: "strrchr ''fr.UTF_8'' CHR ''.'' = Some 2" "strchr ''fr.UTF_8'' CHR ''_'' = Some 6"
    by code_simp+
  have h3: "strrchr ''fr.UTF-8'' CHR ''.'' = Some 2" "strchr ''fr.UTF-8'' CHR ''_'' = None"
    by code_simp+
  have h4: "strrchr ''fr_FR.UTF-8'' CHR ''.'' = Some 5" "strchr ''fr_FR.UTF-8'' CHR ''_'' = Some 2"
    by code_simp+
  from full_locale_needs_codeset [where l = "''fr_FR''" and name = "''prog''"] h1
  have c1: "conversion (split_locale ''fr_FR'') ''prog'' CHR ''L'' = ''C''"
    "conversion (split_locale ''fr_FR'') ''prog'' CHR ''l'' = ''C''"
    by blast+
  from full_locale_needs_codeset [where l = "''fr.UTF_8''" and name = "''prog''" and d = 2 and p = 6] h2
  have c2: "conversion (split_locale ''fr.UTF_8'') ''prog'' CHR ''L'' = ''C''"
    by simp
  from full_locale_needs_codeset [where l = "''fr.UTF-8''" and name = "''prog''" and d = 2] h3
  have c3: "conversion (split_locale ''fr.UTF-8'') ''prog'' CHR ''L'' = ''fr.UTF-8''"
    by blast
  from full_locale_needs_codeset [where l = "''fr_FR.UTF-8''" and name = "''prog''" and d = 5 and p = 2] h4
  have c4: "conversion (split_locale ''fr_FR.UTF-8'') ''prog'' CHR ''L'' = ''fr_FR.UTF-8''"
    by simp
  from h1 h2 h3 h4 c1 c2 c3 c4 show ?thesis
    by blast
qed

text \<open>
  C6. For the template \<^verbatim>\<open>/x/%L/%N.cat;/y/%l/%N.cat\<close>, the locale
  \<^verbatim>\<open>fr_FR.UTF-8\<close> and the name \<^verbatim>\<open>prog\<close>, the loop of \<^verbatim>\<open>catopen\<close> tries the
  paths \<^verbatim>\<open>/x/fr_FR.UTF-8/prog.cat\<close> and \<^verbatim>\<open>/y/fr/prog.cat\<close>, in this order and
  no other, whatever the file system holds.
\<close>

theorem path_expansion_example:
  "catopen_loop fs (split_locale ''fr_FR.UTF-8'') ''prog'' g ''/x/%L/%N.cat;/y/%l/%N.cat''
     = try_candidates fs g [''/x/fr_FR.UTF-8/prog.cat'', ''/y/fr/prog.cat'']
   \<and> catopen [''NLSPATH'' \<mapsto> ''/x/%L/%N.cat;/y/%l/%N.cat'', ''LANG'' \<mapsto> ''fr_FR.UTF-8'']
        fs g (Some ''prog'') 0
     = try_candidates fs g [''/x/fr_FR.UTF-8/prog.cat'', ''/y/fr/prog.cat'']"
proof -
  let ?loc = "split_locale ''fr_FR.UTF-8''"
  have seg1: "expand_segment ?loc ''prog'' [] ''/x/%L/%N.cat;/y/%l/%N.cat''
                = Inr (''/x/fr_FR.UTF-8/prog.cat'', '';/y/%l/%N.cat'')"
    by code_simp
  have seg2: "expand_segment ?loc ''prog'' [] ''/y/%l/%N.cat'' = Inr (''/y/fr/prog.cat'', [])"
    by code_simp
  have second: "catopen_loop fs ?loc ''prog'' g1 ''/y/%l/%N.cat''
                  = try_candidates fs g1 [''/y/fr/prog.cat'']" for g1
    by (subst catopen_loop.simps)
      (simp add: seg2 Let_def del: expand_segment.simps split: sum.splits option.splits prod.splits)
  have both: "catopen_loop fs ?loc ''prog'' g ''/x/%L/%N.cat;/y/%l/%N.cat''
                = try_candidates fs g [''/x/fr_FR.UTF-8/prog.cat'', ''/y/fr/prog.cat'']"
    by (subst catopen_loop.simps)
      (simp add: seg1 second Let_def del: expand_segment.simps
        split: sum.splits option.splits prod.splits)
  have name: "strpbrk ''prog'' [CHR 0x5C, CHR ''/'', CHR '':''] = None"
    by code_simp
  have lang: "catopen_lang [''NLSPATH'' \<mapsto> ''/x/%L/%N.cat;/y/%l/%N.cat'', ''LANG'' \<mapsto> ''fr_FR.UTF-8''] 0
                = ''fr_FR.UTF-8''"
    by (simp add: catopen_lang_def NL_CAT_LOCALE_def)
  show ?thesis
    by (simp add: both catopen_def name lang del: try_candidates.simps)
qed

text \<open>
  C7. Descriptor allocation is first-fit. When the registry does not exist yet,
  \<^verbatim>\<open>install_catalog\<close> creates it with the catalog, marked open, in slot 0.
  Otherwise it returns the index \<open>i\<close> of the first slot that is not open (all
  slots below \<open>i\<close> are open), stores the catalog there marked open, and appends a
  new slot only when every slot is open (\<open>i\<close> is then the length). Consequently,
  when a catalog is opened, its descriptor closed, and another catalog opened, the
  second open returns the descriptor of the first.
\<close>

theorem descriptor_first_fit:
  "install_catalog cat (g\<lparr>theCatalogues := None\<rparr>)
     = (g\<lparr>theCatalogues := Some [cat\<lparr>is_opened := True\<rparr>]\<rparr>, 0)
   \<and> (\<exists>i\<le>length cats.
         install_catalog cat (g\<lparr>theCatalogues := Some cats\<rparr>)
           = (g\<lparr>theCatalogues :=
                  Some (if i < length cats then cats[i := cat\<lparr>is_opened := True\<rparr>]
                        else cats @ [cat\<lparr>is_opened := True\<rparr>])\<rparr>, int i)
         \<and> (\<forall>j<i. is_opened (cats ! j))
         \<and> (i < length cats \<longrightarrow> \<not> is_opened (cats ! i)))
   \<and> (catopen envA fsA gA nameA oflagA = Inr (g1, dA) \<and> dA \<noteq> - 1
        \<and> catclose g1 dA = (g2, rc)
        \<and> catopen envB fsB g2 nameB oflagB = Inr (g3, dB) \<and> dB \<noteq> - 1
      \<longrightarrow> rc = 0 \<and> dB = dA)"
proof (intro conjI impI)
  show "install_catalog cat (g\<lparr>theCatalogues := None\<rparr>)
     = (g\<lparr>theCatalogues := Some [cat\<lparr>is_opened := True\<rparr>]\<rparr>, 0)"
    by (simp add: install_catalog_def)
next
  let ?i = "install_scan cats 0"
  have "?i \<le> length cats"
    using install_scan_bounds [of 0 cats] by simp
  moreover have "\<forall>j<?i. is_opened (cats ! j)"
    using install_scan_skips_open [of 0 _ cats] by simp
  moreover have "?i < length cats \<longrightarrow> \<not> is_opened (cats ! ?i)"
    using install_scan_stops_closed [of cats 0] by simp
  ultimately show "\<exists>i\<le>length cats.
         install_catalog cat (g\<lparr>theCatalogues := Some cats\<rparr>)
           = (g\<lparr>theCatalogues :=
                  Some (if i < length cats then cats[i := cat\<lparr>is_opened := True\<rparr>]
                        else cats @ [cat\<lparr>is_opened := True\<rparr>])\<rparr>, int i)
         \<and> (\<forall>j<i. is_opened (cats ! j))
         \<and> (i < length cats \<longrightarrow> \<not> is_opened (cats ! i))"
    unfolding install_catalog_eq CATCAT_put_at_def by blast
next
  assume h: "catopen envA fsA gA nameA oflagA = Inr (g1, dA) \<and> dA \<noteq> - 1
        \<and> catclose g1 dA = (g2, rc)
        \<and> catopen envB fsB g2 nameB oflagB = Inr (g3, dB) \<and> dB \<noteq> - 1"
  from h catopen_outcome [of envA fsA gA nameA oflagA g1 dA]
  obtain catA g0 where a: "install_catalog catA g0 = (g1, dA)" by auto
  from h catopen_outcome [of envB fsB g2 nameB oflagB g3 dB]
  obtain catB g0' where b: "theCatalogues g0' = theCatalogues g2" "install_catalog catB g0' = (g3, dB)"
    by auto
  from h have c: "catclose g1 dA = (g2, rc)" by simp
  from reuse_after_close [OF a c b] show "rc = 0" and "dB = dA" by simp_all
qed

theorem descriptor_first_fit_witness:
  "catopen Map.empty [''/a.cat'' \<mapsto> ''1 1 Hello\<newline>'', ''/b.cat'' \<mapsto> ''2 3 World\<newline>'']
      \<lparr>theCatalogues = None, errno = E_NONE, keymsg = (0, 0)\<rparr> (Some ''/a.cat'') 0
     = Inr (\<lparr>theCatalogues = Some [\<lparr>is_opened = True, msgs = [\<lparr>set_id = 1, msg_id = 1, msg = ''Hello''\<rparr>]\<rparr>],
             errno = E_NONE, keymsg = (0, 0)\<rparr>, 0)
   \<and> catclose \<lparr>theCatalogues = Some [\<lparr>is_opened = True, msgs = [\<lparr>set_id = 1, msg_id = 1, msg = ''Hello''\<rparr>]\<rparr>],
             errno = E_NONE, keymsg = (0, 0)\<rparr> 0
     = (\<lparr>theCatalogues = Some [\<lparr>is_opened = False, msgs = []\<rparr>], errno = E_NONE, keymsg = (0, 0)\<rparr>, 0)
   \<and> catopen Map.empty [''/a.cat'' \<mapsto> ''1 1 Hello\<newline>'', ''/b.cat'' \<mapsto> ''2 3 World\<newline>'']
      \<lparr>theCatalogues = Some [\<lparr>is_opened = False, msgs = []\<rparr>], errno = E_NONE, keymsg = (0, 0)\<rparr> (Some ''/b.cat'') 0
     = Inr (\<lparr>theCatalogues = Some [\<lparr>is_opened = True, msgs = [\<lparr>set_id = 2, msg_id = 3, msg = ''World''\<rparr>]\<rparr>],
             errno = E_NONE, keymsg = (0, 0)\<rparr>, 0)
   \<and> snd (install_catalog \<lparr>is_opened = False, msgs = []\<rparr>
         \<lparr>theCatalogues = Some [\<lparr>is_opened = True, msgs = []\<rparr>, \<lparr>is_opened = False, msgs = []\<rparr>,
                                 \<lparr>is_opened = True, msgs = []\<rparr>],
            errno = E_NONE, keymsg = (0, 0)\<rparr>) = 1"
proof -
  let ?fs = "[''/a.cat'' \<mapsto> ''1 1 Hello\<newline>'', ''/b.cat'' \<mapsto> ''2 3 World\<newline>'']"
  let ?g = "\<lparr>theCatalogues = None, errno = E_NONE, keymsg = (0, 0)\<rparr>"
  let ?g1 = "\<lparr>theCatalogues = Some [\<lparr>is_opened = True, msgs = [\<lparr>set_id = 1, msg_id = 1, msg = ''Hello''\<rparr>]\<rparr>],
             errno = E_NONE, keymsg = (0, 0)\<rparr>"
  let ?g2 = "\<lparr>theCatalogues = Some [\<lparr>is_opened = False, msgs = []\<rparr>], errno = E_NONE, keymsg = (0, 0)\<rparr>"
  let ?g3 = "\<lparr>theCatalogues = Some [\<lparr>is_opened = True, msgs = [\<lparr>set_id = 2, msg_id = 3, msg = ''World''\<rparr>]\<rparr>],
             errno = E_NONE, keymsg = (0, 0)\<rparr>"
  let ?o = "\<lparr>is_opened = True, msgs = []\<rparr>"
  let ?c = "\<lparr>is_opened = False, msgs = []\<rparr>"
  have a: "catopen Map.empty ?fs ?g (Some ''/a.cat'') 0 = Inr (?g1, 0)"
    by code_simp
  have c: "catclose ?g1 0 = (?g2, 0)"
    by code_simp
  have b: "catopen Map.empty ?fs ?g2 (Some ''/b.cat'') 0 = Inr (?g3, 0)"
    by code_simp
  note inst_thm = descriptor_first_fit [of ?c ?g "[?o, ?c, ?o]" Map.empty ?fs ?g "Some ''/a.cat''" 0 ?g1 0 ?g2 0
      Map.empty ?fs "Some ''/b.cat''" 0 ?g3 0]
  from inst_thm a c b have rc: "(0::int) = 0 \<and> (0::int) = 0" by simp
  from inst_thm obtain i where i: "i \<le> 3"
    and inst: "install_catalog ?c (?g\<lparr>theCatalogues := Some [?o, ?c, ?o]\<rparr>)
       = (?g\<lparr>theCatalogues := Some (if i < 3 then [?o, ?c, ?o][i := ?c\<lparr>is_opened := True\<rparr>]
                                       else [?o, ?c, ?o] @ [?c\<lparr>is_opened := True\<rparr>])\<rparr>, int i)"
    and before: "\<forall>j<i. is_opened ([?o, ?c, ?o] ! j)"
    and stop: "i < 3 \<longrightarrow> \<not> is_opened ([?o, ?c, ?o] ! i)"
    by auto
  have "i \<noteq> 0"
  proof
    assume "i = 0"
    with stop show False by simp
  qed
  moreover have "\<not> 1 < i"
  proof
    assume "1 < i"
    with before have "is_opened ([?o, ?c, ?o] ! 1)" by blast
    then show False by simp
  qed
  ultimately have "i = 1" by simp
  with inst have "snd (install_catalog ?c (?g\<lparr>theCatalogues := Some [?o, ?c, ?o]\<rparr>)) = 1"
    by simp
  with a c b show ?thesis by simp
qed

text \<open>
  C8. The claim asks that a readable file without message lines gives an empty
  catalog. In \<^verbatim>\<open>catread\<close> the catalog is allocated at the first message line;
  for a file without one the pointer is still null when \<^verbatim>\<open>cat->msgs\<close> is
  evaluated for \<^verbatim>\<open>qsort\<close>.
\<close>

theorem catread_without_messages_faults:
  "catread_loop [] [] None = Inr None
   \<and> catread (fs(nm \<mapsto> [])) g nm = Inl NullDeref
   \<and> catread (fs(nm \<mapsto> ''$ only a comment\<newline>'')) g nm = Inl NullDeref
   \<and> catopen env (fs(''/empty.cat'' \<mapsto> [])) g (Some ''/empty.cat'') oflag = Inl NullDeref"
proof -
  have e: "catread_loop [] [] None = Inr None"
    by code_simp
  have c: "catread_loop ''$ only a comment\<newline>'' [] None = Inr None"
    by code_simp
  have p: "strpbrk ''/empty.cat'' [CHR 0x5C, CHR ''/'', CHR '':''] = Some 0"
    by code_simp
  show ?thesis
    by (simp add: catread_def catopen_def e c p)
qed

text \<open>
  C9. A call of \<^verbatim>\<open>catgets\<close> leaves the registry as it was, whichever of its three
  results it gives: the default with \<^verbatim>\<open>EBADF\<close>, the default with \<^verbatim>\<open>ENOMSG\<close>, or
  the text of a stored message. (It does write \<^verbatim>\<open>errno\<close> and its static key.)
\<close>

theorem catgets_keeps_registry:
  "catgets g catd sid mid s = (g1, r) \<Longrightarrow>
     theCatalogues g1 = theCatalogues g
     \<and> ((r = s \<and> errno g1 = EBADF) \<or> (r = s \<and> errno g1 = ENOMSG)
        \<or> (\<exists>cats m. theCatalogues g = Some cats \<and> m \<in> set (msgs (cats ! nat catd))
              \<and> r = msg m \<and> errno g1 = errno g))"
proof -
  assume a: "catgets g catd sid mid s = (g1, r)"
  have reg: "theCatalogues g1 = theCatalogues g"
    using catgets_registry [of g catd sid mid s] a by simp
  show ?thesis
  proof (cases "catd_slot g catd")
    case None
    with a reg show ?thesis by (auto simp: catgets_def)
  next
    case (Some slot)
    obtain cats i cat where slot: "slot = (cats, i, cat)" by (cases slot)
    from catd_slot_Some [OF Some [unfolded slot]]
    have g: "theCatalogues g = Some cats" and cat: "cat = cats ! nat catd" by simp_all
    let ?key = "\<lparr>set_id = sid, msg_id = mid, msg = []\<rparr>"
    show ?thesis
    proof (cases "bsearch catmsg_cmp ?key (msgs cat)")
      case None
      with a Some slot reg show ?thesis by (auto simp: catgets_def Let_def)
    next
      case found: (Some m)
      from bsearch_in_set [OF found] cat have "m \<in> set (msgs (cats ! nat catd))" by simp
      moreover from a Some slot found have "r = msg m" and "errno g1 = errno g"
        by (auto simp: catgets_def Let_def)
      ultimately show ?thesis using reg g by blast
    qed
  qed
qed

theorem catgets_keeps_registry_witness:
  "catgets \<lparr>theCatalogues = Some [\<lparr>is_opened = True, msgs = [\<lparr>set_id = 1, msg_id = 1, msg = ''Hello''\<rparr>]\<rparr>],
             errno = E_NONE, keymsg = (0, 0)\<rparr> 0 1 1 ''dflt''
     = (\<lparr>theCatalogues = Some [\<lparr>is_opened = True, msgs = [\<lparr>set_id = 1, msg_id = 1, msg = ''Hello''\<rparr>]\<rparr>],
             errno = E_NONE, keymsg = (1, 1)\<rparr>, ''Hello'')
   \<and> theCatalogues \<lparr>theCatalogues = Some [\<lparr>is_opened = True, msgs = [\<lparr>set_id = 1, msg_id = 1, msg = ''Hello''\<rparr>]\<rparr>],
             errno = E_NONE, keymsg = (1, 1)\<rparr>
     = Some [\<lparr>is_opened = True, msgs = [\<lparr>set_id = 1, msg_id = 1, msg = ''Hello''\<rparr>]\<rparr>]"
proof -
  let ?g = "\<lparr>theCatalogues = Some [\<lparr>is_opened = True, msgs = [\<lparr>set_id = 1, msg_id = 1, msg = ''Hello''\<rparr>]\<rparr>],
             errno = E_NONE, keymsg = (0, 0)\<rparr>"
  let ?g1 = "\<lparr>theCatalogues = Some [\<lparr>is_opened = True, msgs = [\<lparr>set_id = 1, msg_id = 1, msg = ''Hello''\<rparr>]\<rparr>],
             errno = E_NONE, keymsg = (1, 1)\<rparr>"
  have h: "catgets ?g 0 1 1 ''dflt'' = (?g1, ''Hello'')"
    by code_simp
  from catgets_keeps_registry [OF h] have "theCatalogues ?g1 = theCatalogues ?g" ..
  with h show ?thesis by simp
qed

text \<open>
  C10. When \<^verbatim>\<open>catopen\<close> returns \<open>-1\<close> the registry is what it was before the
  call. The failure value is returned for a null name, for an empty name, and
  for a name with a path separator that cannot be opened.
\<close>

theorem catopen_failure_keeps_registry:
  "(catopen env fs g name oflag = Inr (g1, - 1) \<longrightarrow> theCatalogues g1 = theCatalogues g)
   \<and> catopen env fs g None oflag = Inr (g, - 1)
   \<and> catopen env fs g (Some []) oflag = Inr (g, - 1)
   \<and> (nm \<noteq> [] \<and> strpbrk nm [CHR 0x5C, CHR ''/'', CHR '':''] \<noteq> None \<and> fs nm = None \<longrightarrow>
        catopen env fs g (Some nm) oflag = Inr (g\<lparr>errno := ENOENT\<rparr>, - 1))"
proof -
  have "theCatalogues g1 = theCatalogues g" if "catopen env fs g name oflag = Inr (g1, - 1)"
    using catopen_outcome [OF that] by (auto dest: install_catalog_nonneg)
  then show ?thesis
    by (auto simp: catopen_def catread_def)
qed

theorem catopen_failure_keeps_registry_witness:
  "catopen Map.empty Map.empty \<lparr>theCatalogues = None, errno = E_NONE, keymsg = (0, 0)\<rparr> (Some ''prog'') 0
     = Inr (\<lparr>theCatalogues = None, errno = ENOENT, keymsg = (0, 0)\<rparr>, - 1)
   \<and> theCatalogues \<lparr>theCatalogues = None, errno = ENOENT, keymsg = (0, 0)\<rparr> = None
   \<and> strpbrk ''/x.cat'' [CHR 0x5C, CHR ''/'', CHR '':''] = Some 0
   \<and> catopen Map.empty Map.empty \<lparr>theCatalogues = None, errno = E_NONE, keymsg = (0, 0)\<rparr> (Some ''/x.cat'') 0
     = Inr (\<lparr>theCatalogues = None, errno = ENOENT, keymsg = (0, 0)\<rparr>, - 1)"
proof -
  let ?g = "\<lparr>theCatalogues = None, errno = E_NONE, keymsg = (0, 0)\<rparr>"
  let ?g1 = "\<lparr>theCatalogues = None, errno = ENOENT, keymsg = (0, 0)\<rparr>"
  have h1: "catopen Map.empty Map.empty ?g (Some ''prog'') 0 = Inr (?g1, - 1)"
    by code_simp
  have h2: "strpbrk ''/x.cat'' [CHR 0x5C, CHR ''/'', CHR '':''] = Some 0"
    by code_simp
  note inst_thm = catopen_failure_keeps_registry [of Map.empty Map.empty ?g "Some ''prog''" 0 ?g1 "''/x.cat''"]
  from inst_thm h1 have "theCatalogues ?g1 = theCatalogues ?g" by blast
  moreover from inst_thm h2
  have "catopen Map.empty Map.empty ?g (Some ''/x.cat'') 0 = Inr (?g\<lparr>errno := ENOENT\<rparr>, - 1)"
    by simp
  ultimately show ?thesis using h1 h2 by simp
qed

end
